theory Spec2Isabelle
  imports Complex_Main
begin

section \<open>Token lifecycle and revocation of the Adminory backend\<close>

text \<open>
  The development embeds \<^verbatim>\<open>app/utils/security.py\<close>, \<^verbatim>\<open>app/services/auth.py\<close> and the
  forgot-password endpoint of \<^verbatim>\<open>app/api/auth.py\<close>. The clock (\<^verbatim>\<open>datetime.utcnow()\<close>) is an
  explicit argument \<open>now\<close>, in whole Unix seconds; the relational store and the cache
  store are explicit state, passed in and returned.
\<close>

subsection \<open>Python values\<close>

text \<open>
  A Python \<^verbatim>\<open>str\<close> is a list of symbols. A symbol is an ordinary character or the text of
  one signed token; the latter is kept opaque (the usual perfect-cryptography reading of a
  MAC): \<open>Jws c k a\<close> is the compact serialisation of the claims \<open>c\<close>, signed with the key
  \<open>k\<close> under the algorithm \<open>a\<close>. Concatenation, as in an f-string, is list append.
\<close>

text \<open>
  The values \<^verbatim>\<open>json.loads\<close> produces. A \<^verbatim>\<open>float\<close> is a rational (the exact value of the
  double) or one of the three special values, which \<^verbatim>\<open>json.loads\<close> reads from
  \<^verbatim>\<open>Infinity\<close>, \<^verbatim>\<open>-Infinity\<close>, \<^verbatim>\<open>NaN\<close> and from literals beyond the range of a double.
\<close>

datatype pyfloat = Finite rat | PosInf | NegInf | NaN

datatype jval =
    JNull
  | JBool bool
  | JInt int
  | JFloat pyfloat
  | JStr string
  | JList "jval list"
  | JObject "(string \<times> jval) list"

type_synonym claims = "(string \<times> jval) list"

datatype sym = Chr char | Jws claims string string

type_synonym str = "sym list"

definition lit :: "string \<Rightarrow> str" where
  "lit s = map Chr s"

text \<open>\<^verbatim>\<open>d.update({k: v})\<close> on an insertion-ordered dict; \<^verbatim>\<open>d.get(k)\<close> is \<open>map_of d k\<close>.\<close>

fun dict_set :: "string \<Rightarrow> jval \<Rightarrow> claims \<Rightarrow> claims" where
  "dict_set k v [] = [(k, v)]"
| "dict_set k v ((k', v') # d) = (if k = k' then (k, v) # d else (k', v') # dict_set k v d)"

fun dict_update :: "claims \<Rightarrow> claims \<Rightarrow> claims" where
  "dict_update d [] = d"
| "dict_update d ((k, v) # new) = dict_update (dict_set k v d) new"

subsection \<open>Errors\<close>

text \<open>
  The exceptions that occur. \<^verbatim>\<open>ExpiredSignatureError\<close> and \<^verbatim>\<open>JWTClaimsError\<close> are
  subclasses of \<^verbatim>\<open>JWTError\<close>: \<^verbatim>\<open>except JWTError\<close> catches the three of them and nothing
  else.
\<close>

datatype error =
    HTTPException nat string
  | ValueError
  | TypeError
  | OverflowError
  | MultipleResultsFound
  | JWTError
  | ExpiredSignatureError
  | JWTClaimsError

fun is_JWTError :: "error \<Rightarrow> bool" where
  "is_JWTError JWTError = True"
| "is_JWTError ExpiredSignatureError = True"
| "is_JWTError JWTClaimsError = True"
| "is_JWTError _ = False"

subsection \<open>Python's \<^verbatim>\<open>int()\<close>\<close>

text \<open>
  \<^verbatim>\<open>int(x)\<close> on a JSON value: a number is truncated towards zero, a text is parsed as
  a decimal literal (surrounding white space, an optional sign, digits with single
  underscores between them; ASCII only), \<^verbatim>\<open>NaN\<close> and unparsable text raise
  \<^verbatim>\<open>ValueError\<close>, an infinity raises \<^verbatim>\<open>OverflowError\<close>, and \<^verbatim>\<open>None\<close>, a list or a dict
  raise \<^verbatim>\<open>TypeError\<close>.
\<close>

definition is_space :: "char \<Rightarrow> bool" where
  "is_space c = (of_char c \<in> set [9, 10, 11, 12, 13, 28, 29, 30, 31, 32 :: nat])"

definition is_digit :: "char \<Rightarrow> bool" where
  "is_digit c = (48 \<le> (of_char c :: nat) \<and> (of_char c :: nat) \<le> 57)"

definition strip :: "string \<Rightarrow> string" where
  "strip s = rev (dropWhile is_space (rev (dropWhile is_space s)))"

fun parse_digits :: "nat \<Rightarrow> bool \<Rightarrow> string \<Rightarrow> nat option" where
  "parse_digits acc after_digit [] = (if after_digit then Some acc else None)"
| "parse_digits acc after_digit (c # cs) =
     (if is_digit c then parse_digits (10 * acc + (of_char c - 48)) True cs
      else if c = CHR ''_'' \<and> after_digit then parse_digits acc False cs
      else None)"

definition int_of_text :: "string \<Rightarrow> int option" where
  "int_of_text s =
     (case strip s of
        [] \<Rightarrow> None
      | c # cs \<Rightarrow>
          if c = CHR ''-'' then map_option (\<lambda>n. - int n) (parse_digits 0 False cs)
          else if c = CHR ''+'' then map_option int (parse_digits 0 False cs)
          else map_option int (parse_digits 0 False (c # cs)))"

definition py_trunc :: "rat \<Rightarrow> int" where
  "py_trunc q = (if 0 \<le> q then \<lfloor>q\<rfloor> else \<lceil>q\<rceil>)"

fun py_int :: "jval \<Rightarrow> error + int" where
  "py_int JNull = Inl TypeError"
| "py_int (JBool b) = Inr (if b then 1 else 0)"
| "py_int (JInt i) = Inr i"
| "py_int (JFloat (Finite q)) = Inr (py_trunc q)"
| "py_int (JFloat PosInf) = Inl OverflowError"
| "py_int (JFloat NegInf) = Inl OverflowError"
| "py_int (JFloat NaN) = Inl ValueError"
| "py_int (JStr s) = (case int_of_text s of None \<Rightarrow> Inl ValueError | Some i \<Rightarrow> Inr i)"
| "py_int (JList xs) = Inl TypeError"
| "py_int (JObject kvs) = Inl TypeError"

subsection \<open>The signing library (python-jose)\<close>

text \<open>
  \<^verbatim>\<open>jwt.encode\<close> is deterministic: the claims (with \<^verbatim>\<open>exp\<close> already in whole seconds), the
  key and the algorithm fix the token text. \<^verbatim>\<open>jwt.decode\<close> parses the text, checks the
  algorithm and the signature (every failure so far is a \<^verbatim>\<open>JWTError\<close>; a text that is not
  the serialisation of a signed JSON object is one of the other texts), and then
  validates the registered claims it finds, in this order: \<^verbatim>\<open>iat\<close>, \<^verbatim>\<open>nbf\<close>, \<^verbatim>\<open>exp\<close>,
  \<^verbatim>\<open>aud\<close>, \<^verbatim>\<open>sub\<close>, \<^verbatim>\<open>jti\<close>, \<^verbatim>\<open>at_hash\<close>. The three time claims go through
  \<^verbatim>\<open>int()\<close> under \<^verbatim>\<open>except ValueError\<close> only, so a \<^verbatim>\<open>TypeError\<close> or an \<^verbatim>\<open>OverflowError\<close> of
  \<^verbatim>\<open>int()\<close> leaves \<^verbatim>\<open>jwt.decode\<close> as it is. The caller passes no audience and no access
  token, so a token with an \<^verbatim>\<open>aud\<close> or an \<^verbatim>\<open>at_hash\<close> claim is refused.
\<close>

definition jwt_encode :: "claims \<Rightarrow> string \<Rightarrow> string \<Rightarrow> str" where
  "jwt_encode c key algorithm = [Jws c key algorithm]"

fun jws_load :: "str \<Rightarrow> (claims \<times> string \<times> string) option" where
  "jws_load [Jws c k a] = Some (c, k, a)"
| "jws_load _ = None"

definition signature_verifies :: "str \<Rightarrow> string \<Rightarrow> bool" where
  "signature_verifies token key =
     (case jws_load token of None \<Rightarrow> False | Some (c, k, a) \<Rightarrow> k = key)"

definition unverified_claims :: "str \<Rightarrow> claims" where
  "unverified_claims token = (case jws_load token of None \<Rightarrow> [] | Some (c, k, a) \<Rightarrow> c)"

text \<open>\<^verbatim>\<open>try: int(v) except ValueError: raise JWTClaimsError\<close>.\<close>

definition claim_int :: "jval \<Rightarrow> error + int" where
  "claim_int v = (case py_int v of
                    Inl e \<Rightarrow> if e = ValueError then Inl JWTClaimsError else Inl e
                  | Inr i \<Rightarrow> Inr i)"

definition validate_iat :: "claims \<Rightarrow> error + unit" where
  "validate_iat c =
     (case map_of c ''iat'' of
        None \<Rightarrow> Inr ()
      | Some v \<Rightarrow> (case claim_int v of Inl e \<Rightarrow> Inl e | Inr iat \<Rightarrow> Inr ()))"

definition validate_nbf :: "claims \<Rightarrow> int \<Rightarrow> error + unit" where
  "validate_nbf c now =
     (case map_of c ''nbf'' of
        None \<Rightarrow> Inr ()
      | Some v \<Rightarrow>
         (case claim_int v of
            Inl e \<Rightarrow> Inl e
          | Inr nbf \<Rightarrow> if nbf > now then Inl JWTClaimsError else Inr ()))"

definition validate_exp :: "claims \<Rightarrow> int \<Rightarrow> error + unit" where
  "validate_exp c now =
     (case map_of c ''exp'' of
        None \<Rightarrow> Inr ()
      | Some v \<Rightarrow>
         (case claim_int v of
            Inl e \<Rightarrow> Inl e
          | Inr expiry \<Rightarrow> if expiry < now then Inl ExpiredSignatureError else Inr ()))"

definition validate_aud :: "claims \<Rightarrow> error + unit" where
  "validate_aud c = (case map_of c ''aud'' of None \<Rightarrow> Inr () | Some v \<Rightarrow> Inl JWTClaimsError)"

definition validate_text :: "string \<Rightarrow> claims \<Rightarrow> error + unit" where
  "validate_text k c =
     (case map_of c k of
        None \<Rightarrow> Inr ()
      | Some (JStr s) \<Rightarrow> Inr ()
      | Some v \<Rightarrow> Inl JWTClaimsError)"

definition validate_at_hash :: "claims \<Rightarrow> error + unit" where
  "validate_at_hash c =
     (case map_of c ''at_hash'' of None \<Rightarrow> Inr () | Some v \<Rightarrow> Inl JWTClaimsError)"

fun first_error :: "(error + unit) list \<Rightarrow> error option" where
  "first_error [] = None"
| "first_error (Inl e # checks) = Some e"
| "first_error (Inr u # checks) = first_error checks"

definition validate_claims :: "claims \<Rightarrow> int \<Rightarrow> error + claims" where
  "validate_claims c now =
     (case first_error
             [validate_iat c, validate_nbf c now, validate_exp c now, validate_aud c,
              validate_text ''sub'' c, validate_text ''jti'' c, validate_at_hash c] of
        Some e \<Rightarrow> Inl e
      | None \<Rightarrow> Inr c)"

text \<open>The expiry claim reads as a second that lies before \<open>now\<close>.\<close>

definition expired :: "claims \<Rightarrow> int \<Rightarrow> bool" where
  "expired c now =
     (case map_of c ''exp'' of
        None \<Rightarrow> False
      | Some v \<Rightarrow> (case py_int v of Inl e \<Rightarrow> False | Inr expiry \<Rightarrow> expiry < now))"

definition jwt_decode :: "str \<Rightarrow> string \<Rightarrow> string list \<Rightarrow> int \<Rightarrow> error + claims" where
  "jwt_decode token key algorithms now =
     (case jws_load token of
        None \<Rightarrow> Inl JWTError
      | Some (c, k, a) \<Rightarrow>
          if a \<notin> set algorithms then Inl JWTError
          else if \<not> signature_verifies token key then Inl JWTError
          else validate_claims c now)"

subsection \<open>Settings (\<^verbatim>\<open>app/config.py\<close>)\<close>

record settings =
  JWT_SECRET :: string
  JWT_REFRESH_SECRET :: string
  JWT_ALGORITHM :: string
  ACCESS_TOKEN_EXPIRE_MINUTES :: int
  REFRESH_TOKEN_EXPIRE_DAYS :: int

subsection \<open>\<^verbatim>\<open>app/utils/security.py\<close>\<close>

text \<open>
  \<^verbatim>\<open>expires_delta\<close> is a \<^verbatim>\<open>timedelta\<close> in seconds; \<^verbatim>\<open>if expires_delta:\<close> is false for
  \<^verbatim>\<open>None\<close> and for the zero delta.
\<close>

definition create_access_token :: "settings \<Rightarrow> claims \<Rightarrow> int option \<Rightarrow> int \<Rightarrow> str" where
  "create_access_token S data expires_delta now =
     (let to_encode = data;
          expire = (case expires_delta of
                      Some d \<Rightarrow> if d \<noteq> 0 then now + d
                                else now + 60 * ACCESS_TOKEN_EXPIRE_MINUTES S
                    | None \<Rightarrow> now + 60 * ACCESS_TOKEN_EXPIRE_MINUTES S);
          to_encode = dict_update to_encode [(''exp'', JInt expire), (''type'', JStr ''access'')]
      in jwt_encode to_encode (JWT_SECRET S) (JWT_ALGORITHM S))"

definition create_refresh_token :: "settings \<Rightarrow> claims \<Rightarrow> int \<Rightarrow> str" where
  "create_refresh_token S data now =
     (let to_encode = data;
          expire = now + 86400 * REFRESH_TOKEN_EXPIRE_DAYS S;
          to_encode = dict_update to_encode [(''exp'', JInt expire), (''type'', JStr ''refresh'')]
      in jwt_encode to_encode (JWT_REFRESH_SECRET S) (JWT_ALGORITHM S))"

text \<open>
  \<^verbatim>\<open>decode_token\<close> returns \<^verbatim>\<open>None\<close> (\<open>Inr None\<close>), a payload, or lets an exception that is
  not a \<^verbatim>\<open>JWTError\<close> pass to its caller (\<open>Inl\<close>).
\<close>

definition decode_token :: "settings \<Rightarrow> str \<Rightarrow> string \<Rightarrow> int \<Rightarrow> error + claims option" where
  "decode_token S token token_type now =
     (let secret = (if token_type = ''access'' then JWT_SECRET S else JWT_REFRESH_SECRET S)
      in case jwt_decode token secret [JWT_ALGORITHM S] now of
           Inl e \<Rightarrow> if is_JWTError e then Inr None else Inl e
         | Inr payload \<Rightarrow>
             if map_of payload ''type'' \<noteq> Some (JStr token_type) then Inr None
             else Inr (Some payload))"

text \<open>
  The password hasher (passlib, Argon2) as an ideal hash: \<^verbatim>\<open>verify\<close> accepts exactly the
  hash of the same password.
\<close>

definition hash_password :: "string \<Rightarrow> string" where
  "hash_password password = ''$argon2id$'' @ password"

definition verify_password :: "string \<Rightarrow> string \<Rightarrow> bool" where
  "verify_password plain_password hashed_password =
     (hashed_password = hash_password plain_password)"

subsection \<open>The relational store (\<^verbatim>\<open>app/models/user.py\<close>)\<close>

datatype UserRole = SUPER_ADMIN | ADMIN | USER

fun role_value :: "UserRole \<Rightarrow> string" where
  "role_value SUPER_ADMIN = ''super_admin''"
| "role_value ADMIN = ''admin''"
| "role_value USER = ''user''"

text \<open>
  The primary key \<open>uid\<close> is the canonical text of the UUID, so \<^verbatim>\<open>str(user.id)\<close> is the
  field itself. Timestamps are Unix seconds.
\<close>

record user =
  uid :: string
  email :: string
  password_hash :: "string option"
  name :: string
  role :: UserRole
  is_active :: bool
  email_verified_at :: "int option"
  last_login_at :: "int option"

text \<open>
  \<^verbatim>\<open>UUID(text)\<close> raises \<^verbatim>\<open>ValueError\<close> on text that is not a UUID. Every text that reaches
  it in this service was written by \<^verbatim>\<open>str(user.id)\<close>, so only the canonical spelling
  (lower-case hexadecimal digits in groups of 8-4-4-4-12) is recognised here.
\<close>

definition hexdigit :: "char \<Rightarrow> bool" where
  "hexdigit c = (c \<in> set ''0123456789abcdef'')"

fun uuid_shape :: "nat list \<Rightarrow> string \<Rightarrow> bool" where
  "uuid_shape [] s = (s = [])"
| "uuid_shape (n # ns) s =
     (length (take n s) = n \<and> list_all hexdigit (take n s) \<and>
      (if ns = [] then drop n s = []
       else take 1 (drop n s) = ''-'' \<and> uuid_shape ns (drop (Suc n) s)))"

definition is_uuid :: "string \<Rightarrow> bool" where
  "is_uuid s = uuid_shape [8, 4, 4, 4, 12] s"

fun unlit :: "str \<Rightarrow> string option" where
  "unlit [] = Some []"
| "unlit (Chr c # s) = (case unlit s of None \<Rightarrow> None | Some t \<Rightarrow> Some (c # t))"
| "unlit (Jws c k a # s) = None"

definition UUID :: "str \<Rightarrow> error + string" where
  "UUID s = (case unlit s of
               None \<Rightarrow> Inl ValueError
             | Some t \<Rightarrow> if is_uuid t then Inr t else Inl ValueError)"

text \<open>\<^verbatim>\<open>result.scalar_one_or_none()\<close> on the rows a \<^verbatim>\<open>select ... where\<close> returns.\<close>

fun scalar_one_or_none :: "'a list \<Rightarrow> error + 'a option" where
  "scalar_one_or_none [] = Inr None"
| "scalar_one_or_none [x] = Inr (Some x)"
| "scalar_one_or_none (x # y # zs) = Inl MultipleResultsFound"

definition select_by_email :: "user list \<Rightarrow> string \<Rightarrow> error + user option" where
  "select_by_email db e = scalar_one_or_none (filter (\<lambda>u. email u = e) db)"

definition select_by_id :: "user list \<Rightarrow> string \<Rightarrow> error + user option" where
  "select_by_id db i = scalar_one_or_none (filter (\<lambda>u. uid u = i) db)"

text \<open>\<^verbatim>\<open>db.commit()\<close> after a mutation of the loaded row writes the row back.\<close>

definition commit :: "user \<Rightarrow> user list \<Rightarrow> user list" where
  "commit u db = map (\<lambda>v. if uid v = uid u then u else v) db"

subsection \<open>The cache store (Redis)\<close>

text \<open>
  Modelled from the spec: \<^verbatim>\<open>app/redis.py\<close> (\<^verbatim>\<open>get_redis\<close>) is not among the sources; the
  spec asks for a shared key-value store with per-key time-to-live, existence check and
  delete, whose values read back as text.

  The store is a table of slots. An entry holds its key, its value and the second at
  which it expires; an entry is visible while \<open>now\<close> is before that second. \<^verbatim>\<open>SETEX\<close>
  overwrites the slot of its key, or takes the first free slot, or a new one; \<^verbatim>\<open>DEL\<close>
  empties slots and never moves an entry, so a \<^verbatim>\<open>SCAN\<close> cursor (here the index of the
  next slot) stays meaningful across deletions, and a full iteration reports every key
  that was present throughout, as Redis guarantees.
\<close>

record entry =
  ekey :: str
  evalue :: str
  expires_at :: int

type_synonym redis = "entry option list"

definition live :: "int \<Rightarrow> entry option \<Rightarrow> bool" where
  "live now slot = (case slot of None \<Rightarrow> False | Some e \<Rightarrow> now < expires_at e)"

definition holds :: "str \<Rightarrow> entry option \<Rightarrow> bool" where
  "holds k slot = (case slot of None \<Rightarrow> False | Some e \<Rightarrow> ekey e = k)"

definition redis_get :: "int \<Rightarrow> str \<Rightarrow> redis \<Rightarrow> str option" where
  "redis_get now k R =
     (case find (\<lambda>slot. holds k slot \<and> live now slot) R of
        Some (Some e) \<Rightarrow> Some (evalue e)
      | _ \<Rightarrow> None)"

definition redis_exists :: "int \<Rightarrow> str \<Rightarrow> redis \<Rightarrow> nat" where
  "redis_exists now k R = (if redis_get now k R = None then 0 else 1)"

fun place :: "entry \<Rightarrow> redis \<Rightarrow> redis" where
  "place e [] = [Some e]"
| "place e (None # R) = Some e # R"
| "place e (Some x # R) = Some x # place e R"

definition redis_setex :: "int \<Rightarrow> str \<Rightarrow> int \<Rightarrow> str \<Rightarrow> redis \<Rightarrow> redis" where
  "redis_setex now k ttl v R =
     (let e = \<lparr>ekey = k, evalue = v, expires_at = now + ttl\<rparr>
      in if list_ex (holds k) R
         then map (\<lambda>slot. if holds k slot then Some e else slot) R
         else place e R)"

definition redis_delete :: "str list \<Rightarrow> redis \<Rightarrow> redis" where
  "redis_delete ks R =
     map (\<lambda>slot. case slot of
                   None \<Rightarrow> None
                 | Some e \<Rightarrow> if ekey e \<in> set ks then None else Some e) R"

text \<open>Glob patterns of \<^verbatim>\<open>MATCH\<close>: \<^verbatim>\<open>*\<close> is any text, \<^verbatim>\<open>?\<close> any one symbol.\<close>

fun glob_match :: "str \<Rightarrow> str \<Rightarrow> bool" where
  "glob_match [] s = (s = [])"
| "glob_match (p # ps) [] = (p = Chr (CHR ''*'') \<and> glob_match ps [])"
| "glob_match (p # ps) (c # cs) =
     (if p = Chr (CHR ''*'') then glob_match ps (c # cs) \<or> glob_match (p # ps) cs
      else (p = Chr (CHR ''?'') \<or> p = c) \<and> glob_match ps cs)"

definition redis_scan :: "int \<Rightarrow> nat \<Rightarrow> str \<Rightarrow> nat \<Rightarrow> redis \<Rightarrow> nat \<times> str list" where
  "redis_scan now cursor pattern count R =
     (let page = take count (drop cursor R);
          keys = map ekey (List.map_filter id (filter (live now) page));
          next = (if length R \<le> cursor + count then 0 else cursor + count)
      in (next, filter (glob_match pattern) keys))"

subsection \<open>\<^verbatim>\<open>app/services/auth.py\<close>: the refresh-token helpers\<close>

record world =
  users :: "user list"
  cache :: redis

definition refresh_key :: "str \<Rightarrow> str \<Rightarrow> str" where
  "refresh_key user_id refresh_token =
     lit ''refresh_token:'' @ user_id @ lit '':'' @ refresh_token"

definition store_refresh_token :: "str \<Rightarrow> str \<Rightarrow> int \<Rightarrow> redis \<Rightarrow> redis" where
  "store_refresh_token user_id refresh_token now R =
     redis_setex now (refresh_key user_id refresh_token) (7 * 24 * 3600) (lit ''1'') R"

definition check_refresh_token :: "str \<Rightarrow> str \<Rightarrow> int \<Rightarrow> redis \<Rightarrow> bool" where
  "check_refresh_token user_id refresh_token now R =
     (redis_exists now (refresh_key user_id refresh_token) R \<noteq> 0)"

definition revoke_refresh_token :: "str \<Rightarrow> str \<Rightarrow> redis \<Rightarrow> redis" where
  "revoke_refresh_token user_id refresh_token R =
     redis_delete [refresh_key user_id refresh_token] R"

text \<open>
  The \<^verbatim>\<open>while True\<close> loop of \<^verbatim>\<open>_revoke_all_refresh_tokens\<close>: scan a page, delete the keys
  found, stop when the cursor comes back as 0.
\<close>

function scan_delete_loop :: "int \<Rightarrow> str \<Rightarrow> nat \<Rightarrow> redis \<Rightarrow> redis" where
  "scan_delete_loop now pattern cursor R =
     (let (cursor', keys) = redis_scan now cursor pattern 100 R;
          R' = (if keys \<noteq> [] then redis_delete keys R else R)
      in if cursor' = 0 then R' else scan_delete_loop now pattern cursor' R')"
  by pat_completeness auto
termination
proof (relation "measure (\<lambda>(now, pattern, cursor, R). length R - cursor)", goal_cases)
  case 1
  show ?case by simp
next
  case (2 now pattern cursor R x cursor' keys R')
  have next_cursor: "fst (redis_scan now cursor pattern 100 R) =
      (if length R \<le> cursor + 100 then 0 else cursor + 100)"
    by (simp add: redis_scan_def Let_def)
  have "cursor' = fst (redis_scan now cursor pattern 100 R)"
    using 2 by (metis fst_conv)
  then have "cursor' = cursor + 100" and "cursor + 100 < length R"
    using 2(4) by (auto simp: next_cursor split: if_splits)
  moreover have "length R' = length R"
    using 2(3) by (simp add: redis_delete_def)
  ultimately show ?case by simp
qed

declare scan_delete_loop.simps [simp del]

definition revoke_all_refresh_tokens :: "str \<Rightarrow> int \<Rightarrow> redis \<Rightarrow> redis" where
  "revoke_all_refresh_tokens user_id now R =
     (let pattern = lit ''refresh_token:'' @ user_id @ lit '':*''
      in scan_delete_loop now pattern 0 R)"

text \<open>A slot that a \<^verbatim>\<open>SCAN\<close> with this pattern reports at this second.\<close>

definition matching :: "int \<Rightarrow> str \<Rightarrow> entry option \<Rightarrow> bool" where
  "matching now pattern slot =
     (case slot of None \<Rightarrow> False | Some e \<Rightarrow> now < expires_at e \<and> glob_match pattern (ekey e))"

definition token_data :: "user \<Rightarrow> claims" where
  "token_data u =
     [(''sub'', JStr (uid u)), (''email'', JStr (email u)), (''role'', JStr (role_value (role u)))]"

subsection \<open>\<^verbatim>\<open>app/services/auth.py\<close>: the operations\<close>

text \<open>
  Each operation takes the settings, the clock and the state, and returns its result or
  the exception it raises, with the state as the call leaves it.
\<close>

definition authenticate_user ::
  "settings \<Rightarrow> int \<Rightarrow> string \<Rightarrow> string \<Rightarrow> world \<Rightarrow> (error + user \<times> str \<times> str) \<times> world" where
  "authenticate_user S now data_email data_password W =
     (case select_by_email (users W) data_email of
        Inl e \<Rightarrow> (Inl e, W)
      | Inr None \<Rightarrow> (Inl (HTTPException 401 ''Incorrect email or password''), W)
      | Inr (Some u) \<Rightarrow>
          if (case password_hash u of
                None \<Rightarrow> True
              | Some h \<Rightarrow> h = [] \<or> \<not> verify_password data_password h)
          then (Inl (HTTPException 401 ''Incorrect email or password''), W)
          else if \<not> is_active u
          then (Inl (HTTPException 403 ''User account is inactive''), W)
          else
            let u = u\<lparr>last_login_at := Some now\<rparr>;
                W = W\<lparr>users := commit u (users W)\<rparr>;
                access_token = create_access_token S (token_data u) None now;
                refresh_token = create_refresh_token S (token_data u) now;
                W = W\<lparr>cache := store_refresh_token (lit (uid u)) refresh_token now (cache W)\<rparr>
            in (Inr (u, access_token, refresh_token), W))"

text \<open>
  \<^verbatim>\<open>jwt.decode\<close> has already rejected a \<^verbatim>\<open>sub\<close> that is not text, so the falsy values
  left for \<^verbatim>\<open>payload.get("sub")\<close> are \<^verbatim>\<open>None\<close> and the empty text.
\<close>

definition refresh_access_token ::
  "settings \<Rightarrow> int \<Rightarrow> str \<Rightarrow> world \<Rightarrow> (error + str \<times> str) \<times> world" where
  "refresh_access_token S now refresh_token W =
     (case decode_token S refresh_token ''refresh'' now of
        Inl e \<Rightarrow> (Inl e, W)
      | Inr None \<Rightarrow> (Inl (HTTPException 401 ''Invalid refresh token''), W)
      | Inr (Some payload) \<Rightarrow>
         (case map_of payload ''sub'' of
            Some (JStr user_id) \<Rightarrow>
              if user_id = [] then (Inl (HTTPException 401 ''Invalid token payload''), W)
              else if \<not> check_refresh_token (lit user_id) refresh_token now (cache W)
              then (Inl (HTTPException 401 ''Refresh token has been revoked''), W)
              else
                (case UUID (lit user_id) of
                   Inl e \<Rightarrow> (Inl e, W)
                 | Inr i \<Rightarrow>
                    (case select_by_id (users W) i of
                       Inl e \<Rightarrow> (Inl e, W)
                     | Inr None \<Rightarrow> (Inl (HTTPException 401 ''User not found or inactive''), W)
                     | Inr (Some u) \<Rightarrow>
                         if \<not> is_active u
                         then (Inl (HTTPException 401 ''User not found or inactive''), W)
                         else
                           let new_access_token = create_access_token S (token_data u) None now;
                               new_refresh_token = create_refresh_token S (token_data u) now;
                               R = revoke_refresh_token (lit user_id) refresh_token (cache W);
                               R = store_refresh_token (lit user_id) new_refresh_token now R
                           in (Inr (new_access_token, new_refresh_token), W\<lparr>cache := R\<rparr>)))
          | _ \<Rightarrow> (Inl (HTTPException 401 ''Invalid token payload''), W)))"

definition logout_user :: "str \<Rightarrow> str \<Rightarrow> world \<Rightarrow> world" where
  "logout_user user_id refresh_token W =
     W\<lparr>cache := revoke_refresh_token user_id refresh_token (cache W)\<rparr>"

text \<open>
  The successive states of the cache during one call of \<^verbatim>\<open>refresh_access_token\<close>: the
  state the call finds and, when the call gets as far as rotating, the state after each of
  its two awaited writes (lines 194 and 195), in that order.
\<close>

definition refresh_cache_states :: "settings \<Rightarrow> int \<Rightarrow> str \<Rightarrow> world \<Rightarrow> redis list" where
  "refresh_cache_states S now refresh_token W =
     (case fst (refresh_access_token S now refresh_token W) of
        Inl e \<Rightarrow> [cache W]
      | Inr (new_access_token, new_refresh_token) \<Rightarrow>
          (case map_of (unverified_claims refresh_token) ''sub'' of
             Some (JStr user_id) \<Rightarrow>
               let R1 = revoke_refresh_token (lit user_id) refresh_token (cache W);
                   R2 = store_refresh_token (lit user_id) new_refresh_token now R1
               in [cache W, R1, R2]
           | _ \<Rightarrow> [cache W]))"

text \<open>Whether both tokens have an allow-record in one and the same of these states.\<close>

definition both_allowed :: "str \<Rightarrow> str \<Rightarrow> str \<Rightarrow> int \<Rightarrow> redis \<Rightarrow> bool" where
  "both_allowed user_id old new now R =
     (check_refresh_token user_id old now R \<and> check_refresh_token user_id new now R)"

definition both_allowed_during :: "str \<Rightarrow> str \<Rightarrow> str \<Rightarrow> int \<Rightarrow> redis list \<Rightarrow> bool" where
  "both_allowed_during user_id old new now Rs = list_ex (both_allowed user_id old new now) Rs"

text \<open>
  The one-time tokens. \<^verbatim>\<open>secrets.token_urlsafe(32)\<close> is the argument \<open>rnd\<close>, the text
  drawn by the call. \<^verbatim>\<open>if not user_id\<close> is true for a missing key and for an empty value.
\<close>

definition create_verification_token :: "int \<Rightarrow> string \<Rightarrow> string \<Rightarrow> world \<Rightarrow> str \<times> world" where
  "create_verification_token now rnd user_id W =
     (let token = lit rnd;
          R = redis_setex now (lit ''email_verification:'' @ token) 86400 (lit user_id) (cache W)
      in (token, W\<lparr>cache := R\<rparr>))"

definition verify_email :: "int \<Rightarrow> str \<Rightarrow> world \<Rightarrow> (error + user) \<times> world" where
  "verify_email now token W =
     (case redis_get now (lit ''email_verification:'' @ token) (cache W) of
        None \<Rightarrow> (Inl (HTTPException 400 ''Invalid or expired verification token''), W)
      | Some user_id \<Rightarrow>
          if user_id = []
          then (Inl (HTTPException 400 ''Invalid or expired verification token''), W)
          else
            (case UUID user_id of
               Inl e \<Rightarrow> (Inl e, W)
             | Inr i \<Rightarrow>
                (case select_by_id (users W) i of
                   Inl e \<Rightarrow> (Inl e, W)
                 | Inr None \<Rightarrow> (Inl (HTTPException 404 ''User not found''), W)
                 | Inr (Some u) \<Rightarrow>
                     let u = u\<lparr>email_verified_at := Some now\<rparr>;
                         W = W\<lparr>users := commit u (users W)\<rparr>;
                         W = W\<lparr>cache :=
                               redis_delete [lit ''email_verification:'' @ token] (cache W)\<rparr>
                     in (Inr u, W))))"

definition create_password_reset_token ::
  "int \<Rightarrow> string \<Rightarrow> string \<Rightarrow> world \<Rightarrow> (error + str) \<times> world" where
  "create_password_reset_token now rnd e W =
     (case select_by_email (users W) e of
        Inl err \<Rightarrow> (Inl err, W)
      | Inr None \<Rightarrow> (Inr [], W)
      | Inr (Some u) \<Rightarrow>
          let reset_token = lit rnd;
              R = redis_setex now (lit ''password_reset:'' @ reset_token) 3600 (lit (uid u))
                    (cache W)
          in (Inr reset_token, W\<lparr>cache := R\<rparr>))"

definition reset_password :: "int \<Rightarrow> str \<Rightarrow> string \<Rightarrow> world \<Rightarrow> (error + user) \<times> world" where
  "reset_password now token new_password W =
     (case redis_get now (lit ''password_reset:'' @ token) (cache W) of
        None \<Rightarrow> (Inl (HTTPException 400 ''Invalid or expired reset token''), W)
      | Some user_id \<Rightarrow>
          if user_id = []
          then (Inl (HTTPException 400 ''Invalid or expired reset token''), W)
          else
            (case UUID user_id of
               Inl e \<Rightarrow> (Inl e, W)
             | Inr i \<Rightarrow>
                (case select_by_id (users W) i of
                   Inl e \<Rightarrow> (Inl e, W)
                 | Inr None \<Rightarrow> (Inl (HTTPException 404 ''User not found''), W)
                 | Inr (Some u) \<Rightarrow>
                     let u = u\<lparr>password_hash := Some (hash_password new_password)\<rparr>;
                         W = W\<lparr>users := commit u (users W)\<rparr>;
                         W = W\<lparr>cache := redis_delete [lit ''password_reset:'' @ token] (cache W)\<rparr>;
                         W = W\<lparr>cache := revoke_all_refresh_tokens (lit (uid u)) now (cache W)\<rparr>
                     in (Inr u, W))))"

definition change_password ::
  "string \<Rightarrow> string \<Rightarrow> string \<Rightarrow> world \<Rightarrow> (error + user) \<times> world" where
  "change_password user_id current_password new_password W =
     (case select_by_id (users W) user_id of
        Inl e \<Rightarrow> (Inl e, W)
      | Inr None \<Rightarrow> (Inl (HTTPException 404 ''User not found''), W)
      | Inr (Some u) \<Rightarrow>
          if (case password_hash u of
                None \<Rightarrow> True
              | Some h \<Rightarrow> h = [] \<or> \<not> verify_password current_password h)
          then (Inl (HTTPException 400 ''Current password is incorrect''), W)
          else
            let u = u\<lparr>password_hash := Some (hash_password new_password)\<rparr>;
                W = W\<lparr>users := commit u (users W)\<rparr>
            in (Inr u, W))"

subsection \<open>\<^verbatim>\<open>app/api/auth.py\<close>: the forgot-password endpoint\<close>

definition forgot_password :: "int \<Rightarrow> string \<Rightarrow> string \<Rightarrow> world \<Rightarrow> (error + string) \<times> world" where
  "forgot_password now rnd data_email W =
     (case create_password_reset_token now rnd data_email W of
        (Inl e, W') \<Rightarrow> (Inl e, W')
      | (Inr reset_token, W') \<Rightarrow>
          (Inr ''If the email exists, a password reset link has been sent.'', W'))"

subsection \<open>Example data\<close>

definition settings0 :: settings where
  "settings0 = \<lparr>JWT_SECRET = ''k-access'', JWT_REFRESH_SECRET = ''k-refresh'',
     JWT_ALGORITHM = ''HS256'', ACCESS_TOKEN_EXPIRE_MINUTES = 15, REFRESH_TOKEN_EXPIRE_DAYS = 7\<rparr>"

definition alice :: user where
  "alice = \<lparr>uid = ''00000000-0000-4000-8000-000000000001'', email = ''alice@example.org'',
     password_hash = Some (hash_password ''correct horse''), name = ''Alice'', role = USER,
     is_active = True, email_verified_at = None, last_login_at = None\<rparr>"

definition alice1 :: user where
  "alice1 = alice\<lparr>last_login_at := Some 1000\<rparr>"

definition world0 :: world where
  "world0 = \<lparr>users = [alice], cache = []\<rparr>"

definition rt0 :: str where
  "rt0 = create_refresh_token settings0 (token_data alice) 1000"

definition world1 :: world where
  "world1 = \<lparr>users = [alice1],
              cache = store_refresh_token (lit (uid alice)) rt0 1000 []\<rparr>"

definition rt2 :: str where
  "rt2 = create_refresh_token settings0 (token_data alice) 2000"

definition world2 :: world where
  "world2 = snd (refresh_access_token settings0 2000 rt0 world1)"

definition null_exp_token :: str where
  "null_exp_token =
     [Jws [(''sub'', JStr ''00000000-0000-4000-8000-000000000001''), (''exp'', JNull),
           (''type'', JStr ''access'')] ''k-refresh'' ''HS256'']"

definition list_exp_token :: str where
  "list_exp_token =
     [Jws [(''sub'', JStr ''00000000-0000-4000-8000-000000000001''), (''exp'', JList []),
           (''type'', JStr ''access'')] ''k-refresh'' ''HS256'']"

definition sam :: user where
  "sam = \<lparr>uid = ''00000000-0000-4000-8000-000000000002'', email = ''sam@example.org'',
     password_hash = None, name = ''Sam'', role = USER,
     is_active = True, email_verified_at = None, last_login_at = None\<rparr>"

definition alice2 :: user where
  "alice2 = alice1\<lparr>password_hash := Some (hash_password ''new password'')\<rparr>"

definition settings30 :: settings where
  "settings30 = settings0\<lparr>REFRESH_TOKEN_EXPIRE_DAYS := 30\<rparr>"

definition rt30 :: str where
  "rt30 = create_refresh_token settings30 (token_data alice) 1000"


section \<open>Verified properties\<close>

subsection \<open>Token verification\<close>

lemma map_of_dict_set: "map_of (dict_set k v d) = (map_of d)(k \<mapsto> v)"
  by (induction d) (auto simp: fun_eq_iff)

lemma jws_load_Some: "jws_load t = Some (c, k, a) \<Longrightarrow> t = [Jws c k a]"
  by (induction t rule: jws_load.induct) auto

lemma jwt_decode_Inr:
  "jwt_decode t key algs now = Inr p \<Longrightarrow>
     \<exists>c a. t = [Jws c key a] \<and> a \<in> set algs \<and> validate_claims c now = Inr p"
proof -
  assume h: "jwt_decode t key algs now = Inr p"
  then obtain c k a where l: "jws_load t = Some (c, k, a)"
    by (cases "jws_load t") (auto simp: jwt_decode_def)
  then have t: "t = [Jws c k a]" by (rule jws_load_Some)
  from h l have "a \<in> set algs" "signature_verifies t key" "validate_claims c now = Inr p"
    by (auto simp: jwt_decode_def split: if_splits)
  moreover from this(2) l have "k = key" by (simp add: signature_verifies_def)
  ultimately show ?thesis using t by blast
qed

lemma jwt_decode_unsigned:
  "\<not> signature_verifies t key \<Longrightarrow> jwt_decode t key algs now = Inl JWTError"
  by (cases "jws_load t") (auto simp: jwt_decode_def)

lemma first_error_None: "first_error checks = None \<longleftrightarrow> (\<forall>r \<in> set checks. r = Inr ())"
  by (induction checks rule: first_error.induct) auto

lemma validate_exp_ok: "validate_exp c now = Inr () \<Longrightarrow> \<not> expired c now"
  by (cases "map_of c ''exp''")
     (auto simp: validate_exp_def expired_def claim_int_def split: sum.splits if_splits)

lemma validate_claims_Inr: "validate_claims c now = Inr p \<Longrightarrow> p = c \<and> \<not> expired c now"
proof -
  assume h: "validate_claims c now = Inr p"
  then have n: "first_error
             [validate_iat c, validate_nbf c now, validate_exp c now, validate_aud c,
              validate_text ''sub'' c, validate_text ''jti'' c, validate_at_hash c] = None"
    and p: "p = c"
    by (auto simp: validate_claims_def split: option.splits)
  from n have "validate_exp c now = Inr ()" unfolding first_error_None by simp
  with p show ?thesis by (simp add: validate_exp_ok)
qed

lemma decode_token_Some:
  assumes "decode_token S t ty now = Inr (Some p)"
  shows "t = [Jws p (if ty = ''access'' then JWT_SECRET S else JWT_REFRESH_SECRET S) (JWT_ALGORITHM S)]
         \<and> \<not> expired p now \<and> map_of p ''type'' = Some (JStr ty)"
proof -
  let ?k = "if ty = ''access'' then JWT_SECRET S else JWT_REFRESH_SECRET S"
  from assms obtain q where d: "jwt_decode t ?k [JWT_ALGORITHM S] now = Inr q"
    and q: "map_of q ''type'' = Some (JStr ty)" "p = q"
    by (cases "jwt_decode t ?k [JWT_ALGORITHM S] now")
       (auto simp: decode_token_def Let_def split: if_splits)
  from jwt_decode_Inr[OF d] obtain c a where "t = [Jws c ?k a]" "a \<in> set [JWT_ALGORITHM S]"
    "validate_claims c now = Inr q" by blast
  with validate_claims_Inr[of c now q] q show ?thesis by simp
qed

text \<open>A text whose signature does not verify is answered with \<^verbatim>\<open>None\<close>, always.\<close>

lemma decode_token_unsigned:
  assumes "\<not> signature_verifies t (if ty = ''access'' then JWT_SECRET S else JWT_REFRESH_SECRET S)"
  shows "decode_token S t ty now = Inr None"
  using jwt_decode_unsigned [OF assms] by (simp add: decode_token_def)

text \<open>
  No text is accepted when its signature does not verify, its type is another one or
  its expiry has passed; what is open is only whether the answer is \<^verbatim>\<open>None\<close> or an
  exception of claim validation.
\<close>

lemma decode_token_not_accepted:
  assumes "\<not> signature_verifies t (if ty = ''access'' then JWT_SECRET S else JWT_REFRESH_SECRET S)
           \<or> map_of (unverified_claims t) ''type'' \<noteq> Some (JStr ty)
           \<or> expired (unverified_claims t) now"
  shows "decode_token S t ty now \<noteq> Inr (Some p)"
proof
  assume acc: "decode_token S t ty now = Inr (Some p)"
  from decode_token_Some[OF acc]
  have t: "t = [Jws p (if ty = ''access'' then JWT_SECRET S else JWT_REFRESH_SECRET S) (JWT_ALGORITHM S)]"
    and ne: "\<not> expired p now" and ty: "map_of p ''type'' = Some (JStr ty)" by blast+
  have "unverified_claims t = p" by (subst t) (simp add: unverified_claims_def)
  moreover have "signature_verifies t (if ty = ''access'' then JWT_SECRET S else JWT_REFRESH_SECRET S)"
    by (subst t) (simp add: signature_verifies_def)
  ultimately show False using assms ne ty by simp
qed

text \<open>The claims of the tokens this service issues pass or fail validation on \<^verbatim>\<open>exp\<close> alone.\<close>

lemma dict_update_token_data:
  "dict_update (token_data p) [(''exp'', e), (''type'', t)] =
     token_data p @ [(''exp'', e), (''type'', t)]"
  by (simp add: token_data_def)

lemma dict_set_token_data:
  "dict_set ''type'' t (dict_set ''exp'' e (token_data p)) =
     token_data p @ [(''exp'', e), (''type'', t)]"
  by (simp add: token_data_def)

lemma validate_issued_claims:
  "validate_claims (token_data p @ [(''exp'', JInt e), (''type'', JStr ty)]) now =
     (if e < now then Inl ExpiredSignatureError
      else Inr (token_data p @ [(''exp'', JInt e), (''type'', JStr ty)]))"
  by (simp add: validate_claims_def validate_iat_def validate_nbf_def validate_exp_def
      validate_aud_def validate_text_def validate_at_hash_def claim_int_def token_data_def)

lemma decode_issued_token:
  "decode_token S (jwt_encode (token_data p @ [(''exp'', JInt e), (''type'', JStr ty)]) key
                     (JWT_ALGORITHM S)) ty' now =
     (if key = (if ty' = ''access'' then JWT_SECRET S else JWT_REFRESH_SECRET S)
         \<and> \<not> e < now \<and> ty = ty'
      then Inr (Some (token_data p @ [(''exp'', JInt e), (''type'', JStr ty)]))
      else Inr None)"
  by (simp add: decode_token_def jwt_decode_def jwt_encode_def signature_verifies_def
      validate_issued_claims)
     (simp add: token_data_def)

lemma access_token_not_refresh:
  "decode_token S (create_access_token S (token_data p) delta t0) ''refresh'' now = Inr None"
  by (simp add: create_access_token_def dict_set_token_data decode_issued_token Let_def)

lemma refresh_token_not_access:
  "decode_token S (create_refresh_token S (token_data p) t0) ''access'' now = Inr None"
  by (simp add: create_refresh_token_def dict_set_token_data decode_issued_token Let_def)

text \<open>
  Claim C5 fails on a correctly signed token whose \<^verbatim>\<open>exp\<close> is \<^verbatim>\<open>null\<close> (or a list):
  \<^verbatim>\<open>int()\<close> raises \<^verbatim>\<open>TypeError\<close>, which neither the library nor \<open>decode_token\<close> catches.
  The token below verifies under the refresh secret and carries the type \<^verbatim>\<open>access\<close>;
  checked as a refresh token it is to be answered with \<^verbatim>\<open>None\<close>, and \<open>decode_token\<close>
  raises instead.
\<close>

theorem decode_token_lets_TypeError_escape:
  "signature_verifies null_exp_token (JWT_REFRESH_SECRET settings0)
   \<and> map_of (unverified_claims null_exp_token) ''type'' \<noteq> Some (JStr ''refresh'')
   \<and> decode_token settings0 null_exp_token ''refresh'' 1000 = Inl TypeError
   \<and> decode_token settings0 list_exp_token ''refresh'' 1000 = Inl TypeError"
  by (simp add: null_exp_token_def list_exp_token_def settings0_def signature_verifies_def
      unverified_claims_def decode_token_def jwt_decode_def validate_claims_def validate_iat_def
      validate_nbf_def validate_exp_def claim_int_def)

lemma decode_fresh_access:
  assumes "now \<le> t0 + 60 * ACCESS_TOKEN_EXPIRE_MINUTES S"
  shows "decode_token S (create_access_token S (token_data p) None t0) ''access'' now =
     Inr (Some (token_data p @ [(''exp'', JInt (t0 + 60 * ACCESS_TOKEN_EXPIRE_MINUTES S)),
                                (''type'', JStr ''access'')]))"
  using assms
  by (simp add: create_access_token_def dict_set_token_data decode_issued_token)

lemma decode_stale_access:
  assumes "t0 + 60 * ACCESS_TOKEN_EXPIRE_MINUTES S < now"
  shows "decode_token S (create_access_token S (token_data p) None t0) ''access'' now = Inr None"
  using assms
  by (simp add: create_access_token_def dict_set_token_data decode_issued_token)

text \<open>
  Claim C6. For every principal \<open>p\<close>, the access token issued for \<open>p\<close> at \<open>t0\<close> embeds the
  expiry \<open>t0 + 60 * ACCESS_TOKEN_EXPIRE_MINUTES\<close>; decoded as an access token up to that
  second it yields a payload with \<open>p\<close>'s subject, email and role, and decoded at any later
  second it yields \<^verbatim>\<open>None\<close>.
\<close>

theorem access_token_round_trip:
  "(now \<le> t0 + 60 * ACCESS_TOKEN_EXPIRE_MINUTES S \<longrightarrow>
      (\<exists>payload.
         decode_token S (create_access_token S (token_data p) None t0) ''access'' now = Inr (Some payload)
         \<and> map_of payload ''sub'' = Some (JStr (uid p))
         \<and> map_of payload ''email'' = Some (JStr (email p))
         \<and> map_of payload ''role'' = Some (JStr (role_value (role p)))
         \<and> map_of payload ''exp'' = Some (JInt (t0 + 60 * ACCESS_TOKEN_EXPIRE_MINUTES S))))
   \<and> (t0 + 60 * ACCESS_TOKEN_EXPIRE_MINUTES S < now \<longrightarrow>
        decode_token S (create_access_token S (token_data p) None t0) ''access'' now = Inr None)"
  using decode_fresh_access [of now t0 S p] decode_stale_access [of t0 S now p]
  by (simp add: token_data_def)

theorem access_token_round_trip_witness:
  "(\<exists>payload.
      decode_token settings0 (create_access_token settings0 (token_data alice) None 1000)
        ''access'' 1900 = Inr (Some payload)
      \<and> map_of payload ''sub'' = Some (JStr ''00000000-0000-4000-8000-000000000001'')
      \<and> map_of payload ''email'' = Some (JStr ''alice@example.org'')
      \<and> map_of payload ''role'' = Some (JStr ''user''))
   \<and> decode_token settings0 (create_access_token settings0 (token_data alice) None 1000)
        ''access'' 1901 = Inr None"
proof -
  have fresh: "(1900::int) \<le> 1000 + 60 * ACCESS_TOKEN_EXPIRE_MINUTES settings0"
    and stale: "1000 + 60 * ACCESS_TOKEN_EXPIRE_MINUTES settings0 < (1901::int)"
    by (simp_all add: settings0_def)
  from access_token_round_trip [of 1900 1000 settings0 alice] fresh
  obtain payload where
    "decode_token settings0 (create_access_token settings0 (token_data alice) None 1000)
       ''access'' 1900 = Inr (Some payload)"
    "map_of payload ''sub'' = Some (JStr (uid alice))"
    "map_of payload ''email'' = Some (JStr (email alice))"
    "map_of payload ''role'' = Some (JStr (role_value (role alice)))"
    by blast
  moreover from access_token_round_trip [of 1901 1000 settings0 alice] stale
  have "decode_token settings0 (create_access_token settings0 (token_data alice) None 1000)
       ''access'' 1901 = Inr None"
    by blast
  ultimately show ?thesis by (auto simp: alice_def)
qed

subsection \<open>The cache store\<close>

lemma holds_simps: "holds k None = False" "holds k (Some e) = (ekey e = k)"
  by (simp_all add: holds_def)

lemma live_simps: "live now None = False" "live now (Some e) = (now < expires_at e)"
  by (simp_all add: live_def)

lemma redis_get_None_iff:
  "redis_get now k R = None \<longleftrightarrow> \<not> (\<exists>slot \<in> set R. holds k slot \<and> live now slot)"
proof (cases "find (\<lambda>slot. holds k slot \<and> live now slot) R")
  case None
  then have "\<not> (\<exists>slot \<in> set R. holds k slot \<and> live now slot)"
    by (simp add: find_None_iff)
  then show ?thesis using None by (simp add: redis_get_def)
next
  case (Some x)
  then have x: "x \<in> set R" "holds k x" "live now x"
    by (auto simp: find_Some_iff)
  from \<open>holds k x\<close> obtain e where "x = Some e" by (cases x) (simp_all add: holds_simps)
  then have "redis_get now k R \<noteq> None" using Some by (simp add: redis_get_def)
  then show ?thesis using x by blast
qed

lemma check_refresh_token_iff:
  "check_refresh_token u t now R \<longleftrightarrow>
     (\<exists>slot \<in> set R. holds (refresh_key u t) slot \<and> live now slot)"
  using redis_get_None_iff [of now "refresh_key u t" R]
  by (simp add: check_refresh_token_def redis_exists_def)


lemma delete_slot_cases:
  "slot \<in> set (redis_delete ks R) \<Longrightarrow>
     slot = None \<or> (\<exists>e. slot = Some e \<and> Some e \<in> set R \<and> ekey e \<notin> set ks)"
proof -
  assume "slot \<in> set (redis_delete ks R)"
  then obtain x where x: "x \<in> set R"
    and s: "slot = (case x of None \<Rightarrow> None | Some e \<Rightarrow> if ekey e \<in> set ks then None else Some e)"
    unfolding redis_delete_def by auto
  show ?thesis
  proof (cases x)
    case None then show ?thesis using s by simp
  next
    case (Some e) then show ?thesis using s x by (cases "ekey e \<in> set ks") simp_all
  qed
qed

lemma delete_keeps:
  "Some e \<in> set R \<Longrightarrow> ekey e \<notin> set ks \<Longrightarrow> Some e \<in> set (redis_delete ks R)"
  unfolding redis_delete_def by force

lemma redis_get_delete_None_iff:
  "redis_get now k (redis_delete ks R) = None \<longleftrightarrow> k \<in> set ks \<or> redis_get now k R = None"
proof -
  have "(\<exists>slot \<in> set (redis_delete ks R). holds k slot \<and> live now slot) \<longleftrightarrow>
        k \<notin> set ks \<and> (\<exists>slot \<in> set R. holds k slot \<and> live now slot)" (is "?L \<longleftrightarrow> ?R")
  proof
    assume ?L
    then obtain slot where m: "slot \<in> set (redis_delete ks R)" and h: "holds k slot" "live now slot"
      by blast
    from delete_slot_cases [OF m] h obtain e where e: "slot = Some e" "Some e \<in> set R" "ekey e \<notin> set ks"
      by (auto simp: holds_simps)
    from h e have "ekey e = k" by (simp add: holds_simps)
    with e have "k \<notin> set ks" "slot \<in> set R" by simp_all
    with h show ?R by blast
  next
    assume r: ?R
    then obtain slot where m: "slot \<in> set R" and h: "holds k slot" "live now slot" by blast
    from h obtain e where e: "slot = Some e" by (cases slot) (simp_all add: holds_simps)
    with h r have "ekey e \<notin> set ks" by (simp add: holds_simps)
    with m e have "Some e \<in> set (redis_delete ks R)" by (simp add: delete_keeps)
    with h e show ?L by blast
  qed
  then show ?thesis unfolding redis_get_None_iff by blast
qed


lemma place_mem: "Some e \<in> set (place e R)"
  by (induction e R rule: place.induct) simp_all

lemma place_keeps: "Some x \<in> set R \<Longrightarrow> Some x \<in> set (place e R)"
  by (induction e R rule: place.induct) auto

lemma place_cases: "Some x \<in> set (place e R) \<Longrightarrow> x = e \<or> Some x \<in> set R"
  by (induction e R rule: place.induct) auto

lemma setex_slot_cases:
  assumes "Some x \<in> set (redis_setex now k ttl v R)"
  shows "x = \<lparr>ekey = k, evalue = v, expires_at = now + ttl\<rparr> \<or> (Some x \<in> set R \<and> ekey x \<noteq> k)"
proof (cases "list_ex (holds k) R")
  case True
  let ?e = "\<lparr>ekey = k, evalue = v, expires_at = now + ttl\<rparr>"
  from assms True obtain y where y: "y \<in> set R" and x: "Some x = (if holds k y then Some ?e else y)"
    unfolding redis_setex_def Let_def by auto
  show ?thesis
  proof (cases "holds k y")
    case True then show ?thesis using x by simp
  next
    case False
    with x have "y = Some x" by simp
    with False y show ?thesis by (simp add: holds_simps)
  qed
next
  case False
  then have none: "\<And>y. Some y \<in> set R \<Longrightarrow> ekey y \<noteq> k"
    unfolding list_ex_iff using holds_simps(2) by blast
  from assms False have "Some x \<in> set (place \<lparr>ekey = k, evalue = v, expires_at = now + ttl\<rparr> R)"
    by (simp add: redis_setex_def)
  from place_cases [OF this] none show ?thesis by blast
qed

lemma setex_has_new:
  "Some \<lparr>ekey = k, evalue = v, expires_at = now + ttl\<rparr> \<in> set (redis_setex now k ttl v R)"
proof (cases "list_ex (holds k) R")
  case True
  then obtain y where "y \<in> set R" "holds k y" unfolding list_ex_iff by blast
  then show ?thesis using True unfolding redis_setex_def Let_def by force
next
  case False
  then show ?thesis by (simp add: redis_setex_def place_mem)
qed

lemma setex_keeps:
  assumes "Some x \<in> set R" "ekey x \<noteq> k"
  shows "Some x \<in> set (redis_setex now k ttl v R)"
proof (cases "list_ex (holds k) R")
  case True
  from assms have "\<not> holds k (Some x)" by (simp add: holds_simps)
  with assms(1) show ?thesis using True unfolding redis_setex_def Let_def by force
next
  case False
  then show ?thesis using assms(1) by (simp add: redis_setex_def place_keeps)
qed

lemma redis_get_Some_mem:
  "redis_get now k R = Some v \<Longrightarrow> \<exists>e. Some e \<in> set R \<and> ekey e = k \<and> now < expires_at e \<and> evalue e = v"
proof -
  assume g: "redis_get now k R = Some v"
  then obtain e where f: "find (\<lambda>slot. holds k slot \<and> live now slot) R = Some (Some e)" and v: "evalue e = v"
    unfolding redis_get_def by (auto split: option.splits)
  from f have "Some e \<in> set R" "holds k (Some e)" "live now (Some e)"
    by (auto simp: find_Some_iff)
  with v show ?thesis by (auto simp: holds_simps live_simps)
qed

lemma redis_get_setex_same:
  "redis_get now' k (redis_setex now k ttl v R) = (if now' < now + ttl then Some v else None)"
proof (cases "redis_get now' k (redis_setex now k ttl v R)")
  case None
  have "holds k (Some \<lparr>ekey = k, evalue = v, expires_at = now + ttl\<rparr>)" by (simp add: holds_simps)
  with None setex_has_new [of k v now ttl R]
  have "\<not> live now' (Some \<lparr>ekey = k, evalue = v, expires_at = now + ttl\<rparr>)"
    unfolding redis_get_None_iff by blast
  then show ?thesis using None by (simp add: live_simps)
next
  case (Some w)
  from redis_get_Some_mem [OF Some] obtain e where e: "Some e \<in> set (redis_setex now k ttl v R)"
    "ekey e = k" "now' < expires_at e" "evalue e = w" by blast
  from setex_slot_cases [OF e(1)] e(2) have "e = \<lparr>ekey = k, evalue = v, expires_at = now + ttl\<rparr>"
    by blast
  with e Some show ?thesis by simp
qed

lemma redis_get_setex_other:
  assumes "k' \<noteq> k"
  shows "redis_get now' k' (redis_setex now k ttl v R) = None \<longleftrightarrow> redis_get now' k' R = None"
proof -
  have "(\<exists>slot \<in> set (redis_setex now k ttl v R). holds k' slot \<and> live now' slot) \<longleftrightarrow>
        (\<exists>slot \<in> set R. holds k' slot \<and> live now' slot)" (is "?L \<longleftrightarrow> ?R")
  proof
    assume ?L
    then obtain slot where m: "slot \<in> set (redis_setex now k ttl v R)" and h: "holds k' slot" "live now' slot"
      by blast
    from h obtain e where e: "slot = Some e" "ekey e = k'" by (cases slot) (simp_all add: holds_simps)
    from setex_slot_cases [of e now k ttl v R] m e assms have "Some e \<in> set R" by auto
    with h e show ?R by blast
  next
    assume ?R
    then obtain slot where m: "slot \<in> set R" and h: "holds k' slot" "live now' slot" by blast
    from h obtain e where e: "slot = Some e" "ekey e = k'" by (cases slot) (simp_all add: holds_simps)
    from setex_keeps [of e R k now ttl v] m e assms have "slot \<in> set (redis_setex now k ttl v R)" by simp
    with h show ?L by blast
  qed
  then show ?thesis unfolding redis_get_None_iff by blast
qed


lemma glob_star_any: "glob_match [Chr (CHR ''*'')] s"
  by (induction s) simp_all

lemma glob_star_skip: "glob_match q s \<Longrightarrow> glob_match (Chr (CHR ''*'') # q) s"
  by (cases s) simp_all

lemma glob_prefix_star: "glob_match (p @ [Chr (CHR ''*'')]) (p @ s)"
proof (induction p)
  case Nil
  show ?case using glob_star_any by simp
next
  case (Cons x p)
  show ?case
  proof (cases "x = Chr (CHR ''*'')")
    case True
    have "glob_match (x # (p @ [Chr (CHR ''*'')])) (p @ s)"
      unfolding True using Cons.IH by (rule glob_star_skip)
    then show ?thesis using True by simp
  next
    case False
    then show ?thesis using Cons.IH by simp
  qed
qed

lemma refresh_pattern_matches:
  "glob_match (lit ''refresh_token:'' @ u @ lit '':*'') (refresh_key u t)"
proof -
  have "lit '':*'' = lit '':'' @ [Chr (CHR ''*'')]" by (simp add: lit_def)
  then have "lit ''refresh_token:'' @ u @ lit '':*'' =
      (lit ''refresh_token:'' @ u @ lit '':'') @ [Chr (CHR ''*'')]" by simp
  moreover have "refresh_key u t = (lit ''refresh_token:'' @ u @ lit '':'') @ t"
    by (simp add: refresh_key_def)
  ultimately show ?thesis using glob_prefix_star by metis
qed

lemma scan_keys:
  "set (snd (redis_scan now cursor pattern count R)) =
     {ekey e | e. Some e \<in> set (take count (drop cursor R)) \<and> matching now pattern (Some e)}"
  by (auto simp: redis_scan_def Let_def map_filter_def matching_def live_simps image_iff
      split: option.splits)

lemma delete_nth:
  "i < length R \<Longrightarrow> redis_delete ks R ! i = None \<or> redis_delete ks R ! i = R ! i"
  by (cases "R ! i") (simp_all add: redis_delete_def)

lemma delete_nth_hit:
  "i < length R \<Longrightarrow> R ! i = Some e \<Longrightarrow> ekey e \<in> set ks \<Longrightarrow> redis_delete ks R ! i = None"
  by (simp add: redis_delete_def)

lemma matching_None: "\<not> matching now pattern None"
  by (simp add: matching_def)

lemma scan_delete_loop_clears:
  assumes "\<forall>i<cursor. i < length R \<longrightarrow> \<not> matching now pattern (R ! i)"
  shows "length (scan_delete_loop now pattern cursor R) = length R \<and>
         (\<forall>i<length R. \<not> matching now pattern (scan_delete_loop now pattern cursor R ! i))"
  using assms
proof (induction now pattern cursor R rule: scan_delete_loop.induct)
  case (1 now pattern cursor R)
  define keys where "keys = snd (redis_scan now cursor pattern 100 R)"
  define nxt where "nxt = fst (redis_scan now cursor pattern 100 R)"
  define R' where "R' = (if keys \<noteq> [] then redis_delete keys R else R)"
  have nxt: "nxt = (if length R \<le> cursor + 100 then 0 else cursor + 100)"
    by (simp add: nxt_def redis_scan_def Let_def)
  have unfold: "scan_delete_loop now pattern cursor R =
      (if nxt = 0 then R' else scan_delete_loop now pattern nxt R')"
    by (subst scan_delete_loop.simps) (simp add: Let_def case_prod_beta keys_def nxt_def R'_def)
  have len: "length R' = length R"
    by (simp add: R'_def redis_delete_def)
  have pointwise: "R' ! i = None \<or> R' ! i = R ! i" if "i < length R" for i
    using that delete_nth [of i R keys] by (simp add: R'_def)
  have kept: "\<not> matching now pattern (R' ! i)" if "i < length R" "\<not> matching now pattern (R ! i)" for i
    using pointwise [OF that(1)] that(2) matching_None by metis
  have page: "\<not> matching now pattern (R' ! i)" if "cursor \<le> i" "i < cursor + 100" "i < length R" for i
  proof (cases "matching now pattern (R ! i)")
    case False
    then show ?thesis using kept that by blast
  next
    case True
    then obtain e where e: "R ! i = Some e" by (cases "R ! i") (simp_all add: matching_def)
    have "i - cursor < length (take 100 (drop cursor R))" using that by (simp, arith)
    moreover have "take 100 (drop cursor R) ! (i - cursor) = R ! i" using that by simp
    ultimately have "Some e \<in> set (take 100 (drop cursor R))"
      using e nth_mem by metis
    with True e have "ekey e \<in> set keys"
      unfolding keys_def scan_keys by auto
    then have "R' ! i = None"
      using delete_nth_hit [OF that(3) e] by (auto simp: R'_def)
    then show ?thesis by (simp add: matching_None)
  qed
  have inv: "\<forall>i<cursor + 100. i < length R' \<longrightarrow> \<not> matching now pattern (R' ! i)"
  proof (intro allI impI)
    fix i assume i: "i < cursor + 100" "i < length R'"
    show "\<not> matching now pattern (R' ! i)"
    proof (cases "i < cursor")
      case True
      with "1.prems" i len show ?thesis using kept by simp
    next
      case False
      with i len show ?thesis using page by simp
    qed
  qed
  show ?case
  proof (cases "nxt = 0")
    case True
    then have "length R \<le> cursor + 100" using nxt by (simp split: if_splits)
    with inv len True show ?thesis by (simp add: unfold)
  next
    case False
    then have n: "nxt = cursor + 100" using nxt by (simp split: if_splits)
    have "length (scan_delete_loop now pattern nxt R') = length R' \<and>
         (\<forall>i<length R'. \<not> matching now pattern (scan_delete_loop now pattern nxt R' ! i))"
    proof (rule "1.IH" [of "redis_scan now cursor pattern 100 R" nxt keys R'])
      show "redis_scan now cursor pattern 100 R = redis_scan now cursor pattern 100 R" ..
      show "(nxt, keys) = redis_scan now cursor pattern 100 R" by (simp add: nxt_def keys_def)
      show "R' = (if keys \<noteq> [] then redis_delete keys R else R)" by (rule R'_def)
      show "nxt \<noteq> 0" by (rule False)
      show "\<forall>i<nxt. i < length R' \<longrightarrow> \<not> matching now pattern (R' ! i)" using inv n by simp
    qed
    with False len show ?thesis by (simp add: unfold)
  qed
qed

lemma revoke_all_clears:
  assumes "now \<le> now'"
  shows "\<not> check_refresh_token u t now' (revoke_all_refresh_tokens u now R)"
proof
  let ?p = "lit ''refresh_token:'' @ u @ lit '':*''"
  let ?L = "scan_delete_loop now ?p 0 R"
  assume "check_refresh_token u t now' (revoke_all_refresh_tokens u now R)"
  then obtain slot where m: "slot \<in> set ?L" and h: "holds (refresh_key u t) slot" "live now' slot"
    unfolding check_refresh_token_iff revoke_all_refresh_tokens_def Let_def by blast
  from h obtain e where e: "slot = Some e" "ekey e = refresh_key u t" "now' < expires_at e"
    by (cases slot) (simp_all add: holds_simps live_simps)
  have clears: "length ?L = length R" "\<forall>i<length R. \<not> matching now ?p (?L ! i)"
    using scan_delete_loop_clears [of 0 R now ?p] by simp_all
  from m obtain i where "i < length ?L" "?L ! i = slot" unfolding in_set_conv_nth by blast
  with clears have "\<not> matching now ?p slot" by auto
  moreover have "matching now ?p slot"
    using e assms refresh_pattern_matches [of u t] by (simp add: matching_def)
  ultimately show False by blast
qed


subsection \<open>Rotation of refresh tokens\<close>

lemma unlit_lit: "unlit (lit s) = Some s"
  by (induction s) (simp_all add: lit_def)

lemma UUID_lit: "UUID (lit s) = (if is_uuid s then Inr s else Inl ValueError)"
  by (simp add: UUID_def unlit_lit)

lemma lit_inject: "lit a = lit b \<longleftrightarrow> a = b"
  by (simp add: lit_def inj_map_eq_map inj_def)

lemma refresh_key_inject: "refresh_key u t = refresh_key u t' \<longleftrightarrow> t = t'"
  by (simp add: refresh_key_def)

text \<open>The path of a successful call.\<close>

lemma refresh_access_token_success:
  assumes "decode_token S rt ''refresh'' now = Inr (Some payload)"
    and "map_of payload ''sub'' = Some (JStr u)" and "u \<noteq> []"
    and "check_refresh_token (lit u) rt now (cache W)"
    and "is_uuid u"
    and "select_by_id (users W) u = Inr (Some usr)" and "is_active usr"
  shows "refresh_access_token S now rt W =
     (Inr (create_access_token S (token_data usr) None now,
           create_refresh_token S (token_data usr) now),
      W\<lparr>cache := store_refresh_token (lit u) (create_refresh_token S (token_data usr) now) now
                    (revoke_refresh_token (lit u) rt (cache W))\<rparr>)"
  using assms by (simp add: refresh_access_token_def UUID_lit Let_def)

lemma refresh_access_token_Inr:
  assumes "fst (refresh_access_token S now rt W) = Inr (a, r)"
  shows "\<exists>payload u usr.
     decode_token S rt ''refresh'' now = Inr (Some payload) \<and>
     map_of payload ''sub'' = Some (JStr u) \<and> u \<noteq> [] \<and>
     check_refresh_token (lit u) rt now (cache W) \<and> is_uuid u \<and>
     select_by_id (users W) u = Inr (Some usr) \<and> is_active usr"
proof -
  from assms obtain payload where dec: "decode_token S rt ''refresh'' now = Inr (Some payload)"
    by (cases "decode_token S rt ''refresh'' now")
       (auto simp: refresh_access_token_def split: option.splits)
  from assms dec obtain u where sub: "map_of payload ''sub'' = Some (JStr u)"
    by (cases "map_of payload ''sub''")
       (auto simp: refresh_access_token_def split: jval.splits)
  have 1: "u \<noteq> []" "check_refresh_token (lit u) rt now (cache W)" "is_uuid u"
    using assms dec sub
    by (auto simp: refresh_access_token_def UUID_lit split: if_splits)
  then have "\<exists>usr. select_by_id (users W) u = Inr (Some usr) \<and> is_active usr"
    using assms dec sub
    by (cases "select_by_id (users W) u")
       (auto simp: refresh_access_token_def UUID_lit split: if_splits option.splits)
  with 1 dec sub show ?thesis by blast
qed

lemma refresh_access_token_Inl:
  assumes "fst (refresh_access_token S now rt W) = Inl e"
  shows "snd (refresh_access_token S now rt W) = W"
proof (rule ccontr)
  assume ne: "snd (refresh_access_token S now rt W) \<noteq> W"
  have "\<exists>a r. fst (refresh_access_token S now rt W) = Inr (a, r)"
    using ne
    by (auto simp: refresh_access_token_def Let_def
        split: option.splits jval.splits if_splits sum.splits)
  with assms show False by simp
qed

lemma check_after_store:
  "check_refresh_token u t now' (store_refresh_token u' t' now R) \<longleftrightarrow>
     (if refresh_key u t = refresh_key u' t' then now' < now + 604800
      else check_refresh_token u t now' R)"
proof (cases "refresh_key u t = refresh_key u' t'")
  case True
  then show ?thesis
    using redis_get_setex_same [of now' "refresh_key u' t'" now "7 * 24 * 3600" "lit ''1''" R]
    by (simp add: check_refresh_token_def redis_exists_def store_refresh_token_def)
next
  case False
  then show ?thesis
    using redis_get_setex_other [of "refresh_key u t" "refresh_key u' t'" now' now "7 * 24 * 3600" "lit ''1''" R]
    by (simp add: check_refresh_token_def redis_exists_def store_refresh_token_def)
qed

lemma check_after_revoke:
  "check_refresh_token u t now' (revoke_refresh_token u' t' R) \<longleftrightarrow>
     refresh_key u t \<noteq> refresh_key u' t' \<and> check_refresh_token u t now' R"
  using redis_get_delete_None_iff [of now' "refresh_key u t" "[refresh_key u' t']" R]
  by (auto simp: check_refresh_token_def redis_exists_def revoke_refresh_token_def)

text \<open>
  Claim C4. A call of \<open>refresh_access_token\<close> that fails at one of its first three steps
  (the token does not decode as a refresh token; its allow-record is missing; the principal
  is missing or inactive) returns the matching 401 error and leaves the state as it was,
  so an allow-record present before the call is still present; and every failing call,
  whatever the error, leaves the state unchanged.
\<close>

theorem refresh_failure_leaves_state:
  "(decode_token S rt ''refresh'' now = Inr None \<longrightarrow>
      refresh_access_token S now rt W = (Inl (HTTPException 401 ''Invalid refresh token''), W))
   \<and> (decode_token S rt ''refresh'' now = Inr (Some payload) \<and> map_of payload ''sub'' = Some (JStr u)
        \<and> u \<noteq> [] \<and> \<not> check_refresh_token (lit u) rt now (cache W) \<longrightarrow>
      refresh_access_token S now rt W = (Inl (HTTPException 401 ''Refresh token has been revoked''), W))
   \<and> (decode_token S rt ''refresh'' now = Inr (Some payload) \<and> map_of payload ''sub'' = Some (JStr u)
        \<and> u \<noteq> [] \<and> check_refresh_token (lit u) rt now (cache W) \<and> is_uuid u
        \<and> (select_by_id (users W) u = Inr None
            \<or> (\<exists>usr. select_by_id (users W) u = Inr (Some usr) \<and> \<not> is_active usr)) \<longrightarrow>
      refresh_access_token S now rt W = (Inl (HTTPException 401 ''User not found or inactive''), W)
      \<and> check_refresh_token (lit u) rt now (cache (snd (refresh_access_token S now rt W))))
   \<and> (\<forall>e. fst (refresh_access_token S now rt W) = Inl e \<longrightarrow>
        snd (refresh_access_token S now rt W) = W)"
proof (intro conjI impI allI)
  assume "decode_token S rt ''refresh'' now = Inr None"
  then show "refresh_access_token S now rt W = (Inl (HTTPException 401 ''Invalid refresh token''), W)"
    by (simp add: refresh_access_token_def)
next
  assume "decode_token S rt ''refresh'' now = Inr (Some payload) \<and> map_of payload ''sub'' = Some (JStr u)
        \<and> u \<noteq> [] \<and> \<not> check_refresh_token (lit u) rt now (cache W)"
  then show "refresh_access_token S now rt W = (Inl (HTTPException 401 ''Refresh token has been revoked''), W)"
    by (simp add: refresh_access_token_def)
next
  assume a: "decode_token S rt ''refresh'' now = Inr (Some payload) \<and> map_of payload ''sub'' = Some (JStr u)
        \<and> u \<noteq> [] \<and> check_refresh_token (lit u) rt now (cache W) \<and> is_uuid u
        \<and> (select_by_id (users W) u = Inr None
            \<or> (\<exists>usr. select_by_id (users W) u = Inr (Some usr) \<and> \<not> is_active usr))"
  then show r: "refresh_access_token S now rt W = (Inl (HTTPException 401 ''User not found or inactive''), W)"
    by (auto simp: refresh_access_token_def UUID_lit)
  from a show "check_refresh_token (lit u) rt now (cache (snd (refresh_access_token S now rt W)))"
    by (simp add: r)
next
  fix e assume "fst (refresh_access_token S now rt W) = Inl e"
  then show "snd (refresh_access_token S now rt W) = W" by (rule refresh_access_token_Inl)
qed

lemma decode_fresh_refresh:
  assumes "now \<le> t0 + 86400 * REFRESH_TOKEN_EXPIRE_DAYS S"
  shows "decode_token S (create_refresh_token S (token_data p) t0) ''refresh'' now =
     Inr (Some (token_data p @ [(''exp'', JInt (t0 + 86400 * REFRESH_TOKEN_EXPIRE_DAYS S)),
                                (''type'', JStr ''refresh'')]))"
  using assms
  by (simp add: create_refresh_token_def dict_set_token_data decode_issued_token)

lemma authenticate_user_success:
  assumes "select_by_email (users W) e = Inr (Some u)"
    and "password_hash u = Some h" and "h \<noteq> []" and "verify_password pw h" and "is_active u"
  shows "authenticate_user S now e pw W =
     (Inr (u\<lparr>last_login_at := Some now\<rparr>,
           create_access_token S (token_data u) None now,
           create_refresh_token S (token_data u) now),
      \<lparr>users = commit (u\<lparr>last_login_at := Some now\<rparr>) (users W),
       cache = store_refresh_token (lit (uid u)) (create_refresh_token S (token_data u) now) now
                 (cache W)\<rparr>)"
  using assms by (simp add: authenticate_user_def Let_def token_data_def)

lemma is_uuid_alice: "is_uuid (uid alice)"
  by (simp add: alice_def is_uuid_def hexdigit_def)

lemma login_alice:
  "authenticate_user settings0 1000 ''alice@example.org'' ''correct horse'' world0 =
     (Inr (alice1, create_access_token settings0 (token_data alice) None 1000, rt0), world1)"
proof -
  have "select_by_email (users world0) ''alice@example.org'' = Inr (Some alice)"
    by (simp add: world0_def select_by_email_def alice_def)
  moreover have "password_hash alice = Some (hash_password ''correct horse'')" "is_active alice"
    by (simp_all add: alice_def)
  moreover have "hash_password ''correct horse'' \<noteq> []" by (simp add: hash_password_def)
  moreover have "verify_password ''correct horse'' (hash_password ''correct horse'')"
    by (simp add: verify_password_def)
  ultimately show ?thesis
    using authenticate_user_success [of world0 "''alice@example.org''" alice
        "hash_password ''correct horse''" "''correct horse''" settings0 1000]
    by (simp add: world1_def alice1_def rt0_def world0_def commit_def)
qed

lemma decode_token_claims:
  "decode_token S t ty now = Inr (Some p) \<Longrightarrow> unverified_claims t = p"
  using decode_token_Some [of S t ty now p] by (auto simp: unverified_claims_def)

text \<open>What a successful call does to the cache, in terms of the presented token alone.\<close>

lemma refresh_access_token_rotates:
  assumes "fst (refresh_access_token S now rt W) = Inr (a, r)"
    and "map_of (unverified_claims rt) ''sub'' = Some (JStr u)"
  shows "snd (refresh_access_token S now rt W) =
           W\<lparr>cache := store_refresh_token (lit u) r now
                         (revoke_refresh_token (lit u) rt (cache W))\<rparr>"
    and "check_refresh_token (lit u) rt now (cache W)"
proof -
  from refresh_access_token_Inr [OF assms(1)] obtain payload u' usr where
    h: "decode_token S rt ''refresh'' now = Inr (Some payload)"
       "map_of payload ''sub'' = Some (JStr u')" "u' \<noteq> []"
       "check_refresh_token (lit u') rt now (cache W)" "is_uuid u'"
       "select_by_id (users W) u' = Inr (Some usr)" "is_active usr"
    by blast
  from decode_token_claims [OF h(1)] h(2) assms(2) have u: "u' = u" by simp
  note eq = refresh_access_token_success [OF h]
  from eq assms(1) have r: "r = create_refresh_token S (token_data usr) now" by simp
  show "snd (refresh_access_token S now rt W) =
           W\<lparr>cache := store_refresh_token (lit u) r now
                         (revoke_refresh_token (lit u) rt (cache W))\<rparr>"
    by (simp add: eq r u)
  show "check_refresh_token (lit u) rt now (cache W)" using h(4) u by simp
qed

lemma refresh_cache_states_rotation:
  assumes "fst (refresh_access_token S now rt W) = Inr (a, r)"
    and "map_of (unverified_claims rt) ''sub'' = Some (JStr u)"
  shows "refresh_cache_states S now rt W =
           [cache W, revoke_refresh_token (lit u) rt (cache W),
            store_refresh_token (lit u) r now (revoke_refresh_token (lit u) rt (cache W))]"
  using assms by (simp add: refresh_cache_states_def Let_def)

text \<open>
  Claim C1, as amended. A successful call creates the new pair, then deletes the old
  token's allow-record (line 194) and only then registers the new token's (line 195).
  When the new token differs from the old one: after the deletion the old token has no
  allow-record, the new one has none that it did not have before the call, and the final
  state holds the new token's record and not the old one's; so no state of the call has
  both, unless the new token already had an allow-record when the call began.
\<close>

theorem rotation_revokes_before_registering:
  assumes "fst (refresh_access_token S now rt W) = Inr (a, r)"
    and "map_of (unverified_claims rt) ''sub'' = Some (JStr u)"
    and "r \<noteq> rt"
  shows "refresh_cache_states S now rt W =
           [cache W, revoke_refresh_token (lit u) rt (cache W),
            cache (snd (refresh_access_token S now rt W))]
     \<and> \<not> check_refresh_token (lit u) rt now (revoke_refresh_token (lit u) rt (cache W))
     \<and> (check_refresh_token (lit u) r now (revoke_refresh_token (lit u) rt (cache W))
          \<longleftrightarrow> check_refresh_token (lit u) r now (cache W))
     \<and> \<not> check_refresh_token (lit u) rt now (cache (snd (refresh_access_token S now rt W)))
     \<and> check_refresh_token (lit u) r now (cache (snd (refresh_access_token S now rt W)))
     \<and> (\<not> check_refresh_token (lit u) r now (cache W) \<longrightarrow>
          \<not> both_allowed_during (lit u) rt r now (refresh_cache_states S now rt W))"
  using refresh_access_token_rotates [OF assms(1,2)] refresh_cache_states_rotation [OF assms(1,2)]
    assms(3)
  by (simp add: check_after_store check_after_revoke refresh_key_inject both_allowed_during_def
      both_allowed_def)

lemma token_data_alice1: "token_data alice1 = token_data alice"
  by (simp add: token_data_def alice1_def)

lemma rt0_sub: "map_of (unverified_claims rt0) ''sub'' = Some (JStr (uid alice))"
  by (simp add: rt0_def create_refresh_token_def jwt_encode_def unverified_claims_def
      dict_update_token_data token_data_def)

lemma refresh_alice:
  assumes "users W = [alice1]" and "check_refresh_token (lit (uid alice)) rt0 now (cache W)"
    and "now \<le> 605800"
  shows "refresh_access_token settings0 now rt0 W =
     (Inr (create_access_token settings0 (token_data alice) None now,
           create_refresh_token settings0 (token_data alice) now),
      W\<lparr>cache := store_refresh_token (lit (uid alice))
                    (create_refresh_token settings0 (token_data alice) now) now
                    (revoke_refresh_token (lit (uid alice)) rt0 (cache W))\<rparr>)"
proof -
  have "now \<le> 1000 + 86400 * REFRESH_TOKEN_EXPIRE_DAYS settings0"
    using assms(3) by (simp add: settings0_def)
  from decode_fresh_refresh [OF this, of alice]
  have d: "decode_token settings0 rt0 ''refresh'' now =
      Inr (Some (token_data alice @
                   [(''exp'', JInt (1000 + 86400 * REFRESH_TOKEN_EXPIRE_DAYS settings0)),
                    (''type'', JStr ''refresh'')]))"
    by (simp add: rt0_def)
  have s: "map_of (token_data alice @ [(''exp'', JInt (1000 + 86400 * REFRESH_TOKEN_EXPIRE_DAYS settings0)),
                                (''type'', JStr ''refresh'')]) ''sub'' = Some (JStr (uid alice))"
    by (simp add: token_data_def)
  have n: "uid alice \<noteq> []" by (simp add: alice_def)
  have u: "select_by_id (users W) (uid alice) = Inr (Some alice1)"
    by (simp add: assms(1) select_by_id_def alice1_def)
  have a: "is_active alice1" by (simp add: alice1_def alice_def)
  show ?thesis
    using refresh_access_token_success [OF d s n assms(2) is_uuid_alice u a]
    by (simp add: token_data_alice1)
qed

lemma check_empty: "\<not> check_refresh_token u t now []"
  by (simp add: check_refresh_token_iff)

lemma world1_allows_rt0: "now < 605800 \<Longrightarrow> check_refresh_token (lit (uid alice)) rt0 now (cache world1)"
  by (simp add: world1_def check_after_store)

lemma rt2_new: "rt2 \<noteq> rt0"
  by (simp add: rt2_def rt0_def create_refresh_token_def jwt_encode_def token_data_def
      settings0_def)

lemma rotate_alice:
  "refresh_access_token settings0 2000 rt0 world1 =
     (Inr (create_access_token settings0 (token_data alice) None 2000, rt2),
      world1\<lparr>cache := store_refresh_token (lit (uid alice)) rt2 2000
                    (revoke_refresh_token (lit (uid alice)) rt0 (cache world1))\<rparr>)"
  using refresh_alice [of world1 2000] world1_allows_rt0 [of 2000]
  by (simp add: rt2_def world1_def)

theorem rotation_revokes_before_registering_witness:
  "fst (refresh_access_token settings0 2000 rt0 world1) =
     Inr (create_access_token settings0 (token_data alice) None 2000, rt2)
   \<and> map_of (unverified_claims rt0) ''sub'' = Some (JStr (uid alice))
   \<and> rt2 \<noteq> rt0
   \<and> \<not> check_refresh_token (lit (uid alice)) rt0 2000
         (revoke_refresh_token (lit (uid alice)) rt0 (cache world1))
   \<and> \<not> check_refresh_token (lit (uid alice)) rt2 2000
         (revoke_refresh_token (lit (uid alice)) rt0 (cache world1))
   \<and> check_refresh_token (lit (uid alice)) rt2 2000
         (cache (snd (refresh_access_token settings0 2000 rt0 world1)))"
proof -
  have ok: "fst (refresh_access_token settings0 2000 rt0 world1) =
     Inr (create_access_token settings0 (token_data alice) None 2000, rt2)"
    by (simp add: rotate_alice)
  have fresh: "\<not> check_refresh_token (lit (uid alice)) rt2 2000 (cache world1)"
    using rt2_new by (simp add: world1_def check_after_store refresh_key_inject check_empty)
  from rotation_revokes_before_registering [OF ok rt0_sub rt2_new] fresh ok rt0_sub rt2_new
  show ?thesis by simp
qed

text \<open>
  Claim C1 as stated fails: Alice logs in at second 1000 and rotates at second 2000; the
  call succeeds and none of its cache states holds both allow-records.
\<close>

theorem no_state_allows_both_counterexample:
  "fst (refresh_access_token settings0 2000 rt0 world1) =
     Inr (create_access_token settings0 (token_data alice) None 2000, rt2)
   \<and> \<not> both_allowed_during (lit (uid alice)) rt0 rt2 2000
         (refresh_cache_states settings0 2000 rt0 world1)"
proof -
  have ok: "fst (refresh_access_token settings0 2000 rt0 world1) =
     Inr (create_access_token settings0 (token_data alice) None 2000, rt2)"
    by (simp add: rotate_alice)
  have fresh: "\<not> check_refresh_token (lit (uid alice)) rt2 2000 (cache world1)"
    using rt2_new by (simp add: world1_def check_after_store refresh_key_inject check_empty)
  from refresh_cache_states_rotation [OF ok rt0_sub] fresh rt2_new ok
  show ?thesis
    by (simp add: both_allowed_during_def both_allowed_def check_after_store check_after_revoke
        refresh_key_inject)
qed

lemma scan_delete_loop_slots:
  "length (scan_delete_loop now pattern cursor R) = length R \<and>
   (\<forall>i<length R. scan_delete_loop now pattern cursor R ! i = None
                    \<or> scan_delete_loop now pattern cursor R ! i = R ! i)"
proof (induction now pattern cursor R rule: scan_delete_loop.induct)
  case (1 now pattern cursor R)
  define keys where "keys = snd (redis_scan now cursor pattern 100 R)"
  define nxt where "nxt = fst (redis_scan now cursor pattern 100 R)"
  define R' where "R' = (if keys \<noteq> [] then redis_delete keys R else R)"
  have unfold: "scan_delete_loop now pattern cursor R =
      (if nxt = 0 then R' else scan_delete_loop now pattern nxt R')"
    by (subst scan_delete_loop.simps) (simp add: Let_def case_prod_beta keys_def nxt_def R'_def)
  have len: "length R' = length R"
    by (simp add: R'_def redis_delete_def)
  have pointwise: "R' ! i = None \<or> R' ! i = R ! i" if "i < length R" for i
    using that delete_nth [of i R keys] by (simp add: R'_def)
  show ?case
  proof (cases "nxt = 0")
    case True
    with len pointwise show ?thesis by (simp add: unfold)
  next
    case False
    have "length (scan_delete_loop now pattern nxt R') = length R' \<and>
       (\<forall>i<length R'. scan_delete_loop now pattern nxt R' ! i = None
                        \<or> scan_delete_loop now pattern nxt R' ! i = R' ! i)"
      by (rule "1.IH" [of "redis_scan now cursor pattern 100 R" nxt keys R'])
         (simp_all add: nxt_def keys_def R'_def False [unfolded nxt_def])
    with False len pointwise show ?thesis by (simp add: unfold) metis
  qed
qed

lemma redis_get_loop_None:
  assumes "redis_get now' k R = None"
  shows "redis_get now' k (scan_delete_loop now pattern cursor R) = None"
proof -
  let ?L = "scan_delete_loop now pattern cursor R"
  have "\<not> (holds k slot \<and> live now' slot)" if "slot \<in> set ?L" for slot
  proof -
    from that obtain i where i: "i < length ?L" "?L ! i = slot"
      unfolding in_set_conv_nth by blast
    with scan_delete_loop_slots [of now pattern cursor R]
    have "slot = None \<or> slot \<in> set R" by (metis nth_mem)
    with assms show ?thesis unfolding redis_get_None_iff by (auto simp: holds_simps)
  qed
  then show ?thesis unfolding redis_get_None_iff by blast
qed

lemma check_refresh_token_get:
  "check_refresh_token u t now R \<longleftrightarrow> redis_get now (refresh_key u t) R \<noteq> None"
  by (simp add: check_refresh_token_def redis_exists_def)

lemma check_after_revoke_all:
  "\<not> check_refresh_token u t now' R \<Longrightarrow>
     \<not> check_refresh_token u t now' (revoke_all_refresh_tokens u' now R)"
  by (simp add: check_refresh_token_get revoke_all_refresh_tokens_def redis_get_loop_None)

lemma refresh_key_not_one_time:
  "refresh_key u t \<noteq> lit ''password_reset:'' @ x"
  "refresh_key u t \<noteq> lit ''email_verification:'' @ x"
  by (simp_all add: refresh_key_def lit_def)

lemma check_after_setex_one_time:
  "check_refresh_token u t now' (redis_setex now (lit ''password_reset:'' @ x) ttl v R)
     = check_refresh_token u t now' R"
  "check_refresh_token u t now' (redis_setex now (lit ''email_verification:'' @ x) ttl v R)
     = check_refresh_token u t now' R"
  unfolding check_refresh_token_get
  using redis_get_setex_other [OF refresh_key_not_one_time(1)]
    redis_get_setex_other [OF refresh_key_not_one_time(2)]
  by simp_all

lemma check_after_delete:
  "\<not> check_refresh_token u t now' R \<Longrightarrow> \<not> check_refresh_token u t now' (redis_delete ks R)"
  unfolding check_refresh_token_get redis_get_delete_None_iff by simp

lemma authenticate_user_cache:
  "snd (authenticate_user S now e pw W) = W \<and> (\<exists>err. fst (authenticate_user S now e pw W) = Inl err)
   \<or> (\<exists>usr a r. fst (authenticate_user S now e pw W) = Inr (usr, a, r) \<and>
         cache (snd (authenticate_user S now e pw W)) =
           store_refresh_token (lit (uid usr)) r now (cache W))"
proof (cases "select_by_email (users W) e")
  case (Inl err)
  then show ?thesis by (simp add: authenticate_user_def)
next
  case (Inr found)
  show ?thesis
  proof (cases found)
    case None
    with Inr show ?thesis by (simp add: authenticate_user_def)
  next
    case (Some u)
    show ?thesis
    proof (cases "(case password_hash u of None \<Rightarrow> True
                   | Some h \<Rightarrow> h = [] \<or> \<not> verify_password pw h) \<or> \<not> is_active u")
      case True
      with Inr Some show ?thesis by (auto simp: authenticate_user_def)
    next
      case False
      with Inr Some show ?thesis by (simp add: authenticate_user_def Let_def)
    qed
  qed
qed

lemma one_time_cache:
  "cache (snd (verify_email now tok W)) = cache W
     \<or> cache (snd (verify_email now tok W)) =
         redis_delete [lit ''email_verification:'' @ tok] (cache W)"
  "cache (snd (reset_password now tok pw W)) = cache W
     \<or> (\<exists>x. cache (snd (reset_password now tok pw W)) =
           revoke_all_refresh_tokens x now
             (redis_delete [lit ''password_reset:'' @ tok] (cache W)))"
  "cache (snd (create_password_reset_token now rnd e W)) = cache W
     \<or> (\<exists>v. cache (snd (create_password_reset_token now rnd e W)) =
           redis_setex now (lit ''password_reset:'' @ lit rnd) 3600 v (cache W))"
  "cache (snd (create_verification_token now rnd i W)) =
     redis_setex now (lit ''email_verification:'' @ lit rnd) 86400 (lit i) (cache W)"
  "cache (snd (change_password i cur new W)) = cache W"
  by (auto simp: verify_email_def reset_password_def create_password_reset_token_def
      create_verification_token_def change_password_def Let_def
      split: option.splits sum.splits)

text \<open>
  When a rotation returns a token different from the one presented, the presented token
  has lost its allow-record for good, and a later call with it is refused as revoked
  whenever the token still decodes.
\<close>

lemma second_refresh_rejected:
  assumes "fst (refresh_access_token S now rt W) = Inr (a, r)" and "r \<noteq> rt"
    and "cache W' = cache (snd (refresh_access_token S now rt W))"
    and "decode_token S rt ''refresh'' now' = Inr (Some p')"
  shows "refresh_access_token S now' rt W' =
     (Inl (HTTPException 401 ''Refresh token has been revoked''), W')"
proof -
  from refresh_access_token_Inr [OF assms(1)] obtain payload u where
    h: "decode_token S rt ''refresh'' now = Inr (Some payload)"
       "map_of payload ''sub'' = Some (JStr u)" "u \<noteq> []"
    by blast
  have p: "p' = payload"
    using decode_token_claims [OF h(1)] decode_token_claims [OF assms(4)] by simp
  have sub: "map_of (unverified_claims rt) ''sub'' = Some (JStr u)"
    using decode_token_claims [OF h(1)] h(2) by simp
  have "\<not> check_refresh_token (lit u) rt now' (cache W')"
    using refresh_access_token_rotates(1) [OF assms(1) sub] assms(2,3)
    by (simp add: check_after_store check_after_revoke refresh_key_inject)
  with assms(4) p h show ?thesis by (simp add: refresh_access_token_def)
qed

lemma revoked_frame:
  assumes gone: "\<not> check_refresh_token u t now' (cache W)"
  shows "(\<forall>usr a r. fst (authenticate_user S now e pw W) = Inr (usr, a, r)
            \<longrightarrow> refresh_key (lit (uid usr)) r \<noteq> refresh_key u t)
         \<longrightarrow> \<not> check_refresh_token u t now' (cache (snd (authenticate_user S now e pw W)))"
    and "(\<forall>a r u'. fst (refresh_access_token S now rt W) = Inr (a, r)
              \<and> map_of (unverified_claims rt) ''sub'' = Some (JStr u')
            \<longrightarrow> refresh_key (lit u') r \<noteq> refresh_key u t)
         \<longrightarrow> \<not> check_refresh_token u t now' (cache (snd (refresh_access_token S now rt W)))"
    and "\<not> check_refresh_token u t now' (cache (logout_user u' t' W))"
    and "\<not> check_refresh_token u t now' (cache (snd (verify_email now tok W)))"
    and "\<not> check_refresh_token u t now' (cache (snd (create_verification_token now rnd i W)))"
    and "\<not> check_refresh_token u t now' (cache (snd (create_password_reset_token now rnd e W)))"
    and "\<not> check_refresh_token u t now' (cache (snd (reset_password now tok pw W)))"
    and "\<not> check_refresh_token u t now' (cache (snd (change_password i pw pw' W)))"
proof -
  show "(\<forall>usr a r. fst (authenticate_user S now e pw W) = Inr (usr, a, r)
            \<longrightarrow> refresh_key (lit (uid usr)) r \<noteq> refresh_key u t)
         \<longrightarrow> \<not> check_refresh_token u t now' (cache (snd (authenticate_user S now e pw W)))"
    using authenticate_user_cache [of S now e pw W] gone
    by (auto simp: check_after_store)
  show "(\<forall>a r u'. fst (refresh_access_token S now rt W) = Inr (a, r)
              \<and> map_of (unverified_claims rt) ''sub'' = Some (JStr u')
            \<longrightarrow> refresh_key (lit u') r \<noteq> refresh_key u t)
         \<longrightarrow> \<not> check_refresh_token u t now' (cache (snd (refresh_access_token S now rt W)))"
  proof (cases "fst (refresh_access_token S now rt W)")
    case (Inl err)
    then show ?thesis using refresh_access_token_Inl gone by simp
  next
    case (Inr res)
    obtain a r where res: "res = (a, r)" by (cases res)
    from refresh_access_token_Inr [of S now rt W a r] Inr res obtain payload u' where
      h: "decode_token S rt ''refresh'' now = Inr (Some payload)" "map_of payload ''sub'' = Some (JStr u')"
      by auto
    have sub: "map_of (unverified_claims rt) ''sub'' = Some (JStr u')"
      using decode_token_claims [OF h(1)] h(2) by simp
    show ?thesis
      using refresh_access_token_rotates(1) [of S now rt W a r u'] Inr res sub gone
      by (auto simp: check_after_store check_after_revoke)
  qed
  show "\<not> check_refresh_token u t now' (cache (logout_user u' t' W))"
    using gone by (simp add: logout_user_def check_after_revoke)
  show "\<not> check_refresh_token u t now' (cache (snd (verify_email now tok W)))"
    using one_time_cache(1) [of now tok W] gone check_after_delete by metis
  show "\<not> check_refresh_token u t now' (cache (snd (create_verification_token now rnd i W)))"
    using gone by (simp add: one_time_cache(4) check_after_setex_one_time)
  show "\<not> check_refresh_token u t now' (cache (snd (create_password_reset_token now rnd e W)))"
    using one_time_cache(3) [of now rnd e W] gone by (auto simp: check_after_setex_one_time)
  show "\<not> check_refresh_token u t now' (cache (snd (reset_password now tok pw W)))"
    using one_time_cache(2) [of now tok pw W] gone check_after_delete check_after_revoke_all
    by metis
  show "\<not> check_refresh_token u t now' (cache (snd (change_password i pw pw' W)))"
    using gone by (simp add: one_time_cache(5))
qed

lemma world2_eq:
  "world2 = \<lparr>users = [alice1],
             cache = store_refresh_token (lit (uid alice)) rt2 2000
                       (revoke_refresh_token (lit (uid alice)) rt0 (cache world1))\<rparr>"
  by (simp add: world2_def rotate_alice) (simp add: world1_def)

lemma rt0_payload:
  "now \<le> 605800 \<Longrightarrow> decode_token settings0 rt0 ''refresh'' now = Inr (Some (unverified_claims rt0))"
  using decode_fresh_refresh [of now 1000 settings0 alice]
    decode_token_claims [of settings0 rt0 "''refresh''" now]
  by (simp add: rt0_def settings0_def)

text \<open>
  Claim C3 fails on a rotation in the second in which the token was issued. A token is
  a function of the claims, the secret and the second of issue, with no unique id. Alice
  logs in at second 1000 and rotates within that second: the call succeeds, returns the
  very token it was given, deletes its allow-record and registers it again, so the state
  is as before; a second call with the original token at second 1001 is accepted, where
  the claim has it fail with the revoked-token error.
\<close>

lemma rotate_same_cache:
  "store_refresh_token u t now (revoke_refresh_token u t (store_refresh_token u t now [])) =
     store_refresh_token u t now []"
  by (simp add: store_refresh_token_def revoke_refresh_token_def redis_setex_def
      redis_delete_def holds_def)

theorem same_second_rotation_keeps_old_token:
  "fst (refresh_access_token settings0 1000 rt0 world1) =
      Inr (create_access_token settings0 (token_data alice) None 1000, rt0)
   \<and> snd (refresh_access_token settings0 1000 rt0 world1) = world1
   \<and> fst (refresh_access_token settings0 1001 rt0
           (snd (refresh_access_token settings0 1000 rt0 world1))) =
      Inr (create_access_token settings0 (token_data alice) None 1001,
           create_refresh_token settings0 (token_data alice) 1001)"
proof -
  have first: "refresh_access_token settings0 1000 rt0 world1 =
     (Inr (create_access_token settings0 (token_data alice) None 1000, rt0),
      world1\<lparr>cache := store_refresh_token (lit (uid alice)) rt0 1000
                    (revoke_refresh_token (lit (uid alice)) rt0 (cache world1))\<rparr>)"
    using refresh_alice [of world1 1000] world1_allows_rt0 [of 1000]
    by (simp add: rt0_def world1_def)
  have "refresh_access_token settings0 1001 rt0
          (world1\<lparr>cache := store_refresh_token (lit (uid alice)) rt0 1000
                    (revoke_refresh_token (lit (uid alice)) rt0 (cache world1))\<rparr>) =
     (Inr (create_access_token settings0 (token_data alice) None 1001,
           create_refresh_token settings0 (token_data alice) 1001),
      (world1\<lparr>cache := store_refresh_token (lit (uid alice)) rt0 1000
                    (revoke_refresh_token (lit (uid alice)) rt0 (cache world1))\<rparr>)
        \<lparr>cache := store_refresh_token (lit (uid alice))
                    (create_refresh_token settings0 (token_data alice) 1001) 1001
                    (revoke_refresh_token (lit (uid alice)) rt0
                       (cache (world1\<lparr>cache := store_refresh_token (lit (uid alice)) rt0 1000
                          (revoke_refresh_token (lit (uid alice)) rt0 (cache world1))\<rparr>)))\<rparr>)"
    by (rule refresh_alice) (simp_all add: world1_def check_after_store)
  moreover have "world1\<lparr>cache := store_refresh_token (lit (uid alice)) rt0 1000
                    (revoke_refresh_token (lit (uid alice)) rt0 (cache world1))\<rparr> = world1"
    by (simp add: world1_def rotate_same_cache)
  ultimately show ?thesis using first by simp
qed

theorem refresh_failure_leaves_state_witness:
  "decode_token settings0 (lit ''not a token'') ''refresh'' 3000 = Inr None
   \<and> refresh_access_token settings0 3000 (lit ''not a token'') world2 =
       (Inl (HTTPException 401 ''Invalid refresh token''), world2)
   \<and> \<not> check_refresh_token (lit (uid alice)) rt0 3000 (cache world2)
   \<and> refresh_access_token settings0 3000 rt0 world2 =
       (Inl (HTTPException 401 ''Refresh token has been revoked''), world2)
   \<and> select_by_id (users (world1\<lparr>users := []\<rparr>)) (uid alice) = Inr None
   \<and> refresh_access_token settings0 3000 rt0 (world1\<lparr>users := []\<rparr>) =
       (Inl (HTTPException 401 ''User not found or inactive''), world1\<lparr>users := []\<rparr>)
   \<and> check_refresh_token (lit (uid alice)) rt0 3000 (cache (world1\<lparr>users := []\<rparr>))"
proof -
  have bad: "decode_token settings0 (lit ''not a token'') ''refresh'' 3000 = Inr None"
    by (simp add: decode_token_def jwt_decode_def lit_def)
  have dec: "decode_token settings0 rt0 ''refresh'' 3000 = Inr (Some (unverified_claims rt0))"
    by (simp add: rt0_payload)
  have ne: "uid alice \<noteq> []" by (simp add: alice_def)
  have gone: "\<not> check_refresh_token (lit (uid alice)) rt0 3000 (cache world2)"
    using rt2_new
    by (simp add: world2_eq check_after_store check_after_revoke refresh_key_inject)
  have there: "check_refresh_token (lit (uid alice)) rt0 3000 (cache (world1\<lparr>users := []\<rparr>))"
    using world1_allows_rt0 [of 3000] by simp
  have nobody: "select_by_id (users (world1\<lparr>users := []\<rparr>)) (uid alice) = Inr None"
    by (simp add: select_by_id_def)
  from refresh_failure_leaves_state [of settings0 "lit ''not a token''" 3000 world2] bad
  have 1: "refresh_access_token settings0 3000 (lit ''not a token'') world2 =
       (Inl (HTTPException 401 ''Invalid refresh token''), world2)" by blast
  from refresh_failure_leaves_state [of settings0 rt0 3000 world2 "unverified_claims rt0" "uid alice"]
    dec rt0_sub ne gone
  have 2: "refresh_access_token settings0 3000 rt0 world2 =
       (Inl (HTTPException 401 ''Refresh token has been revoked''), world2)" by blast
  from refresh_failure_leaves_state [of settings0 rt0 3000 "world1\<lparr>users := []\<rparr>"
      "unverified_claims rt0" "uid alice"]
    dec rt0_sub ne there is_uuid_alice nobody
  have 3: "refresh_access_token settings0 3000 rt0 (world1\<lparr>users := []\<rparr>) =
       (Inl (HTTPException 401 ''User not found or inactive''), world1\<lparr>users := []\<rparr>)" by blast
  from bad 1 gone 2 nobody 3 there show ?thesis by blast
qed

subsection \<open>Login, one-time tokens and password changes\<close>

text \<open>
  Claim C10. For a principal without password hash, \<open>authenticate_user\<close> fails for every
  supplied password with 401 "Incorrect email or password" and leaves the state as it
  was; a principal with a hash and a wrong password gets the same error and the same
  untouched state, so the two failures cannot be told apart.
\<close>

theorem sso_only_user_cannot_log_in:
  "(select_by_email (users W) e = Inr (Some u) \<and> password_hash u = None \<longrightarrow>
      authenticate_user S now e pw W =
        (Inl (HTTPException 401 ''Incorrect email or password''), W))
   \<and> (select_by_email (users W') e' = Inr (Some u') \<and> password_hash u' = Some h
        \<and> \<not> verify_password pw' h \<longrightarrow>
      authenticate_user S now' e' pw' W' =
        (Inl (HTTPException 401 ''Incorrect email or password''), W'))"
  by (simp add: authenticate_user_def)

theorem sso_only_user_cannot_log_in_witness:
  "select_by_email [alice, sam] ''sam@example.org'' = Inr (Some sam)
   \<and> password_hash sam = None
   \<and> authenticate_user settings0 1000 ''sam@example.org'' '''' \<lparr>users = [alice, sam], cache = []\<rparr> =
        (Inl (HTTPException 401 ''Incorrect email or password''), \<lparr>users = [alice, sam], cache = []\<rparr>)
   \<and> select_by_email [alice, sam] ''alice@example.org'' = Inr (Some alice)
   \<and> \<not> verify_password ''wrong'' (hash_password ''correct horse'')
   \<and> authenticate_user settings0 1000 ''alice@example.org'' ''wrong'' \<lparr>users = [alice, sam], cache = []\<rparr> =
        (Inl (HTTPException 401 ''Incorrect email or password''), \<lparr>users = [alice, sam], cache = []\<rparr>)"
proof -
  have s: "select_by_email [alice, sam] ''sam@example.org'' = Inr (Some sam)"
    and a: "select_by_email [alice, sam] ''alice@example.org'' = Inr (Some alice)"
    by (simp_all add: select_by_email_def alice_def sam_def)
  have n: "password_hash sam = None" by (simp add: sam_def)
  have h: "password_hash alice = Some (hash_password ''correct horse'')" by (simp add: alice_def)
  have w: "\<not> verify_password ''wrong'' (hash_password ''correct horse'')"
    by (simp add: verify_password_def hash_password_def)
  from sso_only_user_cannot_log_in [of "\<lparr>users = [alice, sam], cache = []\<rparr>" "''sam@example.org''" sam
      settings0 1000 "''''" "\<lparr>users = [alice, sam], cache = []\<rparr>" "''alice@example.org''" alice
      "hash_password ''correct horse''" "''wrong''" 1000]
    s a n h w
  show ?thesis by simp
qed

text \<open>
  Claim C9. The forgot-password endpoint returns the same generic success message for a
  state in which the email belongs to a principal and for a state in which it does not;
  in the latter the service returns the empty token, raises nothing and leaves the state
  (so the cache) as it was.
\<close>

theorem forgot_password_same_response:
  "(select_by_email (users W1) e = Inr (Some u) \<and> select_by_email (users W2) e = Inr None \<longrightarrow>
      fst (forgot_password now1 rnd1 e W1) = fst (forgot_password now2 rnd2 e W2))
   \<and> (select_by_email (users W1) e = Inr (Some u) \<longrightarrow>
        fst (forgot_password now1 rnd1 e W1) =
          Inr ''If the email exists, a password reset link has been sent.'')
   \<and> (select_by_email (users W2) e = Inr None \<longrightarrow>
        forgot_password now2 rnd2 e W2 =
          (Inr ''If the email exists, a password reset link has been sent.'', W2)
        \<and> create_password_reset_token now2 rnd2 e W2 = (Inr [], W2))"
  by (simp add: forgot_password_def create_password_reset_token_def Let_def)

theorem forgot_password_same_response_witness:
  "select_by_email (users world0) ''alice@example.org'' = Inr (Some alice)
   \<and> select_by_email (users \<lparr>users = [], cache = []\<rparr>) ''alice@example.org'' = Inr None
   \<and> fst (forgot_password 1000 ''r4nd0m'' ''alice@example.org'' world0) =
       fst (forgot_password 1000 ''r4nd0m'' ''alice@example.org'' \<lparr>users = [], cache = []\<rparr>)
   \<and> forgot_password 1000 ''r4nd0m'' ''alice@example.org'' \<lparr>users = [], cache = []\<rparr> =
       (Inr ''If the email exists, a password reset link has been sent.'', \<lparr>users = [], cache = []\<rparr>)"
proof -
  have a: "select_by_email (users world0) ''alice@example.org'' = Inr (Some alice)"
    by (simp add: world0_def select_by_email_def alice_def)
  have b: "select_by_email (users \<lparr>users = [], cache = []\<rparr>) ''alice@example.org'' = Inr None"
    by (simp add: select_by_email_def)
  from forgot_password_same_response [of world0 "''alice@example.org''" alice
      "\<lparr>users = [], cache = []\<rparr>" 1000 "''r4nd0m''" 1000 "''r4nd0m''"] a b
  show ?thesis by simp
qed

lemma is_uuid_nonempty: "is_uuid s \<Longrightarrow> s \<noteq> []"
  by (auto simp: is_uuid_def)

lemma lit_nonempty: "lit s = [] \<longleftrightarrow> s = []"
  by (simp add: lit_def)

lemma redis_get_loop_delete:
  "redis_get t k (revoke_all_refresh_tokens x now (redis_delete [k] R)) = None"
  by (simp add: revoke_all_refresh_tokens_def redis_get_loop_None redis_get_delete_None_iff)

lemma reset_password_success:
  assumes "redis_get now (lit ''password_reset:'' @ tok) (cache W) = Some (lit i)"
    and "is_uuid i" and "select_by_id (users W) i = Inr (Some u)"
  shows "reset_password now tok pw W =
     (Inr (u\<lparr>password_hash := Some (hash_password pw)\<rparr>),
      \<lparr>users = commit (u\<lparr>password_hash := Some (hash_password pw)\<rparr>) (users W),
       cache = revoke_all_refresh_tokens (lit (uid u)) now
                 (redis_delete [lit ''password_reset:'' @ tok] (cache W))\<rparr>)"
  using assms is_uuid_nonempty [OF assms(2)]
  by (simp add: reset_password_def UUID_lit Let_def lit_nonempty)

lemma verify_email_success:
  assumes "redis_get now (lit ''email_verification:'' @ tok) (cache W) = Some (lit i)"
    and "is_uuid i" and "select_by_id (users W) i = Inr (Some u)"
  shows "verify_email now tok W =
     (Inr (u\<lparr>email_verified_at := Some now\<rparr>),
      \<lparr>users = commit (u\<lparr>email_verified_at := Some now\<rparr>) (users W),
       cache = redis_delete [lit ''email_verification:'' @ tok] (cache W)\<rparr>)"
  using assms is_uuid_nonempty [OF assms(2)]
  by (simp add: verify_email_def UUID_lit Let_def lit_nonempty)

lemma reset_password_absent:
  "redis_get now (lit ''password_reset:'' @ tok) (cache W) = None \<Longrightarrow>
     reset_password now tok pw W = (Inl (HTTPException 400 ''Invalid or expired reset token''), W)"
  by (simp add: reset_password_def)

lemma verify_email_absent:
  "redis_get now (lit ''email_verification:'' @ tok) (cache W) = None \<Longrightarrow>
     verify_email now tok W =
       (Inl (HTTPException 400 ''Invalid or expired verification token''), W)"
  by (simp add: verify_email_def)

lemma reset_token_single_use:
  fixes W :: world and t0 t1 :: int and rnd e pw :: string
  assumes "select_by_email (users W) e = Inr (Some u)" and "is_uuid (uid u)"
    and "select_by_id (users W) (uid u) = Inr (Some u)" and "t1 < t0 + 3600"
  defines "W1 \<equiv> snd (create_password_reset_token t0 rnd e W)"
  defines "W2 \<equiv> snd (reset_password t1 (lit rnd) pw W1)"
  shows "fst (create_password_reset_token t0 rnd e W) = Inr (lit rnd)"
    and "redis_get t1 (lit ''password_reset:'' @ lit rnd) (cache W1) = Some (lit (uid u))"
    and "fst (reset_password t1 (lit rnd) pw W1) = Inr (u\<lparr>password_hash := Some (hash_password pw)\<rparr>)"
    and "redis_get t2 (lit ''password_reset:'' @ lit rnd) (cache W2) = None"
    and "reset_password t2 (lit rnd) pw' W2 =
           (Inl (HTTPException 400 ''Invalid or expired reset token''), W2)"
proof -
  have W1: "W1 = W\<lparr>cache := redis_setex t0 (lit ''password_reset:'' @ lit rnd) 3600 (lit (uid u))
                              (cache W)\<rparr>"
    and mint: "fst (create_password_reset_token t0 rnd e W) = Inr (lit rnd)"
    using assms(1) by (simp_all add: W1_def create_password_reset_token_def Let_def)
  show "fst (create_password_reset_token t0 rnd e W) = Inr (lit rnd)" by (rule mint)
  have get: "redis_get t1 (lit ''password_reset:'' @ lit rnd) (cache W1) = Some (lit (uid u))"
    using assms(4) by (simp add: W1 redis_get_setex_same)
  then show "redis_get t1 (lit ''password_reset:'' @ lit rnd) (cache W1) = Some (lit (uid u))" .
  have sel: "select_by_id (users W1) (uid u) = Inr (Some u)" using assms(3) by (simp add: W1)
  note r = reset_password_success [OF get assms(2) sel, of pw]
  show "fst (reset_password t1 (lit rnd) pw W1) = Inr (u\<lparr>password_hash := Some (hash_password pw)\<rparr>)"
    by (simp add: r)
  show gone: "redis_get t2 (lit ''password_reset:'' @ lit rnd) (cache W2) = None" for t2
    by (simp add: W2_def r redis_get_loop_delete)
  show "reset_password t2 (lit rnd) pw' W2 =
           (Inl (HTTPException 400 ''Invalid or expired reset token''), W2)"
    by (rule reset_password_absent) (rule gone)
qed

lemma verification_token_single_use:
  fixes W :: world and t0 t1 :: int and rnd i :: string
  assumes "is_uuid i" and "select_by_id (users W) i = Inr (Some u)" and "t1 < t0 + 86400"
  defines "W1 \<equiv> snd (create_verification_token t0 rnd i W)"
  defines "W2 \<equiv> snd (verify_email t1 (lit rnd) W1)"
  shows "fst (create_verification_token t0 rnd i W) = lit rnd"
    and "redis_get t1 (lit ''email_verification:'' @ lit rnd) (cache W1) = Some (lit i)"
    and "fst (verify_email t1 (lit rnd) W1) = Inr (u\<lparr>email_verified_at := Some t1\<rparr>)"
    and "redis_get t2 (lit ''email_verification:'' @ lit rnd) (cache W2) = None"
    and "verify_email t2 (lit rnd) W2 =
           (Inl (HTTPException 400 ''Invalid or expired verification token''), W2)"
proof -
  have W1: "W1 = W\<lparr>cache := redis_setex t0 (lit ''email_verification:'' @ lit rnd) 86400 (lit i)
                              (cache W)\<rparr>"
    by (simp add: W1_def create_verification_token_def Let_def)
  show "fst (create_verification_token t0 rnd i W) = lit rnd"
    by (simp add: create_verification_token_def Let_def)
  have get: "redis_get t1 (lit ''email_verification:'' @ lit rnd) (cache W1) = Some (lit i)"
    using assms(3) by (simp add: W1 redis_get_setex_same)
  then show "redis_get t1 (lit ''email_verification:'' @ lit rnd) (cache W1) = Some (lit i)" .
  have sel: "select_by_id (users W1) i = Inr (Some u)" using assms(2) by (simp add: W1)
  note r = verify_email_success [OF get assms(1) sel]
  show "fst (verify_email t1 (lit rnd) W1) = Inr (u\<lparr>email_verified_at := Some t1\<rparr>)"
    by (simp add: r)
  show gone: "redis_get t2 (lit ''email_verification:'' @ lit rnd) (cache W2) = None" for t2
    by (simp add: W2_def r redis_get_delete_None_iff)
  show "verify_email t2 (lit rnd) W2 =
           (Inl (HTTPException 400 ''Invalid or expired verification token''), W2)"
    by (rule verify_email_absent) (rule gone)
qed

text \<open>
  Claim C7. A password-reset token minted for a principal and redeemed within its hour
  returns that principal (with the new password hash) and deletes the mapping; every
  later redemption of the same token fails with 400 "Invalid or expired reset token" and
  changes nothing. The same holds for an email-verification token within its 24 hours
  and \<open>verify_email\<close>.
\<close>

theorem one_time_token_single_use:
  "(select_by_email (users W) e = Inr (Some u) \<and> is_uuid (uid u)
      \<and> select_by_id (users W) (uid u) = Inr (Some u) \<and> t1 < t0 + 3600 \<longrightarrow>
      fst (create_password_reset_token t0 rnd e W) = Inr (lit rnd)
    \<and> redis_get t1 (lit ''password_reset:'' @ lit rnd)
         (cache (snd (create_password_reset_token t0 rnd e W))) = Some (lit (uid u))
    \<and> fst (reset_password t1 (lit rnd) pw (snd (create_password_reset_token t0 rnd e W))) =
         Inr (u\<lparr>password_hash := Some (hash_password pw)\<rparr>)
    \<and> redis_get t2 (lit ''password_reset:'' @ lit rnd)
         (cache (snd (reset_password t1 (lit rnd) pw
                   (snd (create_password_reset_token t0 rnd e W))))) = None
    \<and> reset_password t2 (lit rnd) pw'
         (snd (reset_password t1 (lit rnd) pw (snd (create_password_reset_token t0 rnd e W)))) =
         (Inl (HTTPException 400 ''Invalid or expired reset token''),
          snd (reset_password t1 (lit rnd) pw (snd (create_password_reset_token t0 rnd e W)))))
   \<and> (is_uuid i \<and> select_by_id (users W) i = Inr (Some v) \<and> t1 < t0 + 86400 \<longrightarrow>
      fst (create_verification_token t0 rnd i W) = lit rnd
    \<and> redis_get t1 (lit ''email_verification:'' @ lit rnd)
         (cache (snd (create_verification_token t0 rnd i W))) = Some (lit i)
    \<and> fst (verify_email t1 (lit rnd) (snd (create_verification_token t0 rnd i W))) =
         Inr (v\<lparr>email_verified_at := Some t1\<rparr>)
    \<and> redis_get t2 (lit ''email_verification:'' @ lit rnd)
         (cache (snd (verify_email t1 (lit rnd) (snd (create_verification_token t0 rnd i W))))) = None
    \<and> verify_email t2 (lit rnd)
         (snd (verify_email t1 (lit rnd) (snd (create_verification_token t0 rnd i W)))) =
         (Inl (HTTPException 400 ''Invalid or expired verification token''),
          snd (verify_email t1 (lit rnd) (snd (create_verification_token t0 rnd i W)))))"
proof (rule conjI; rule impI)
  assume a: "select_by_email (users W) e = Inr (Some u) \<and> is_uuid (uid u)
      \<and> select_by_id (users W) (uid u) = Inr (Some u) \<and> t1 < t0 + 3600"
  then have a1: "select_by_email (users W) e = Inr (Some u)" and a2: "is_uuid (uid u)"
    and a3: "select_by_id (users W) (uid u) = Inr (Some u)" and a4: "t1 < t0 + 3600"
    by simp_all
  note r = reset_token_single_use [OF a1 a2 a3 a4]
  show "fst (create_password_reset_token t0 rnd e W) = Inr (lit rnd)
    \<and> redis_get t1 (lit ''password_reset:'' @ lit rnd)
         (cache (snd (create_password_reset_token t0 rnd e W))) = Some (lit (uid u))
    \<and> fst (reset_password t1 (lit rnd) pw (snd (create_password_reset_token t0 rnd e W))) =
         Inr (u\<lparr>password_hash := Some (hash_password pw)\<rparr>)
    \<and> redis_get t2 (lit ''password_reset:'' @ lit rnd)
         (cache (snd (reset_password t1 (lit rnd) pw
                   (snd (create_password_reset_token t0 rnd e W))))) = None
    \<and> reset_password t2 (lit rnd) pw'
         (snd (reset_password t1 (lit rnd) pw (snd (create_password_reset_token t0 rnd e W)))) =
         (Inl (HTTPException 400 ''Invalid or expired reset token''),
          snd (reset_password t1 (lit rnd) pw (snd (create_password_reset_token t0 rnd e W))))"
    by (intro conjI) (rule r)+
next
  assume b: "is_uuid i \<and> select_by_id (users W) i = Inr (Some v) \<and> t1 < t0 + 86400"
  then have b1: "is_uuid i" and b2: "select_by_id (users W) i = Inr (Some v)"
    and b3: "t1 < t0 + 86400"
    by simp_all
  note r = verification_token_single_use [OF b1 b2 b3]
  show "fst (create_verification_token t0 rnd i W) = lit rnd
    \<and> redis_get t1 (lit ''email_verification:'' @ lit rnd)
         (cache (snd (create_verification_token t0 rnd i W))) = Some (lit i)
    \<and> fst (verify_email t1 (lit rnd) (snd (create_verification_token t0 rnd i W))) =
         Inr (v\<lparr>email_verified_at := Some t1\<rparr>)
    \<and> redis_get t2 (lit ''email_verification:'' @ lit rnd)
         (cache (snd (verify_email t1 (lit rnd) (snd (create_verification_token t0 rnd i W))))) = None
    \<and> verify_email t2 (lit rnd)
         (snd (verify_email t1 (lit rnd) (snd (create_verification_token t0 rnd i W)))) =
         (Inl (HTTPException 400 ''Invalid or expired verification token''),
          snd (verify_email t1 (lit rnd) (snd (create_verification_token t0 rnd i W))))"
    by (intro conjI) (rule r)+
qed

theorem one_time_token_single_use_witness:
  "select_by_email (users world0) ''alice@example.org'' = Inr (Some alice)
   \<and> select_by_id (users world0) (uid alice) = Inr (Some alice)
   \<and> is_uuid (uid alice)
   \<and> fst (reset_password 2000 (lit ''r4nd0m'') ''new password''
           (snd (create_password_reset_token 1000 ''r4nd0m'' ''alice@example.org'' world0))) =
        Inr (alice\<lparr>password_hash := Some (hash_password ''new password'')\<rparr>)
   \<and> fst (reset_password 2001 (lit ''r4nd0m'') ''newer password''
           (snd (reset_password 2000 (lit ''r4nd0m'') ''new password''
              (snd (create_password_reset_token 1000 ''r4nd0m'' ''alice@example.org'' world0))))) =
        Inl (HTTPException 400 ''Invalid or expired reset token'')
   \<and> fst (verify_email 2000 (lit ''r4nd0m'')
           (snd (create_verification_token 1000 ''r4nd0m'' (uid alice) world0))) =
        Inr (alice\<lparr>email_verified_at := Some 2000\<rparr>)
   \<and> fst (verify_email 2001 (lit ''r4nd0m'')
           (snd (verify_email 2000 (lit ''r4nd0m'')
              (snd (create_verification_token 1000 ''r4nd0m'' (uid alice) world0))))) =
        Inl (HTTPException 400 ''Invalid or expired verification token'')"
proof -
  have e: "select_by_email (users world0) ''alice@example.org'' = Inr (Some alice)"
    by (simp add: world0_def select_by_email_def alice_def)
  have i: "select_by_id (users world0) (uid alice) = Inr (Some alice)"
    by (simp add: world0_def select_by_id_def)
  have t: "(2000::int) < 1000 + 3600" "(2000::int) < 1000 + 86400" by simp_all
  from one_time_token_single_use [of world0 "''alice@example.org''" alice 2000 1000 "''r4nd0m''"
      "''new password''" 2001 "''newer password''" "uid alice" alice]
    e i t is_uuid_alice
  show ?thesis by simp
qed

lemma refresh_failure_leaves_state_aux:
  assumes "decode_token S rt ''refresh'' now = Inr (Some payload)"
    and "map_of (unverified_claims rt) ''sub'' = Some (JStr u)" and "u \<noteq> []"
    and "\<not> check_refresh_token (lit u) rt now (cache W)"
  shows "refresh_access_token S now rt W =
     (Inl (HTTPException 401 ''Refresh token has been revoked''), W)"
  using assms decode_token_claims [OF assms(1)] by (simp add: refresh_access_token_def)

lemma reset_password_Inr:
  "fst (reset_password now tok pw W) = Inr u' \<Longrightarrow>
     \<exists>u. u' = u\<lparr>password_hash := Some (hash_password pw)\<rparr> \<and>
         cache (snd (reset_password now tok pw W)) =
           revoke_all_refresh_tokens (lit (uid u)) now
             (redis_delete [lit ''password_reset:'' @ tok] (cache W))"
  by (auto simp: reset_password_def Let_def split: option.splits sum.splits if_splits)

lemma reset_password_revokes_all:
  assumes "fst (reset_password now tok pw W) = Inr u'" and "now \<le> now'"
  shows "\<not> check_refresh_token (lit (uid u')) t now' (cache (snd (reset_password now tok pw W)))"
proof -
  from reset_password_Inr [OF assms(1)] obtain u where
    u: "u' = u\<lparr>password_hash := Some (hash_password pw)\<rparr>"
    and c: "cache (snd (reset_password now tok pw W)) =
           revoke_all_refresh_tokens (lit (uid u)) now
             (redis_delete [lit ''password_reset:'' @ tok] (cache W))"
    by blast
  have "uid u' = uid u" by (simp add: u)
  then show ?thesis using revoke_all_clears [OF assms(2)] by (simp add: c)
qed

text \<open>
  Claim C2 fails for \<open>change_password\<close>, which never touches the cache
  (\<open>reset_password\<close> does revoke every refresh token, see \<open>reset_password_revokes_all\<close>):
  Alice logs in at second 1000 and changes her password; the refresh token of that login
  keeps its allow-record and is accepted at second 2000.
\<close>

theorem change_password_keeps_refresh_tokens:
  "check_refresh_token (lit (uid alice)) rt0 1500 (cache world1)
   \<and> fst (change_password (uid alice) ''correct horse'' ''new password'' world1) = Inr alice2
   \<and> check_refresh_token (lit (uid alice)) rt0 2000
        (cache (snd (change_password (uid alice) ''correct horse'' ''new password'' world1)))
   \<and> fst (refresh_access_token settings0 2000 rt0
           (snd (change_password (uid alice) ''correct horse'' ''new password'' world1))) =
        Inr (create_access_token settings0 (token_data alice) None 2000, rt2)"
proof -
  have c: "change_password (uid alice) ''correct horse'' ''new password'' world1 =
      (Inr alice2, world1\<lparr>users := [alice2]\<rparr>)"
    by (simp add: change_password_def world1_def select_by_id_def alice1_def alice2_def alice_def
        verify_password_def hash_password_def commit_def Let_def)
  have d: "decode_token settings0 rt0 ''refresh'' 2000 = Inr (Some (unverified_claims rt0))"
    by (simp add: rt0_payload)
  have n: "uid alice \<noteq> []" by (simp add: alice_def)
  have k: "check_refresh_token (lit (uid alice)) rt0 2000 (cache (world1\<lparr>users := [alice2]\<rparr>))"
    using world1_allows_rt0 [of 2000] by simp
  have s: "select_by_id (users (world1\<lparr>users := [alice2]\<rparr>)) (uid alice) = Inr (Some alice2)"
    by (simp add: select_by_id_def alice2_def alice1_def)
  have a: "is_active alice2" by (simp add: alice2_def alice1_def alice_def)
  have t: "token_data alice2 = token_data alice"
    by (simp add: token_data_def alice2_def alice1_def)
  from refresh_access_token_success [OF d rt0_sub n k is_uuid_alice s a]
  have "fst (refresh_access_token settings0 2000 rt0 (world1\<lparr>users := [alice2]\<rparr>)) =
        Inr (create_access_token settings0 (token_data alice) None 2000, rt2)"
    by (simp add: t rt2_def)
  with c k world1_allows_rt0 [of 1500] show ?thesis by simp
qed

text \<open>
  Claim C8 fails when the configured lifetime is not 7 days: the time-to-live of the
  allow-record is the constant \<open>7 * 24 * 3600\<close>. With a lifetime of 30 days, the token
  issued at second 1000 embeds the expiry \<open>1000 + 30 * 86400\<close>, its allow-record expires
  at \<open>1000 + 7 * 86400\<close>, and at that second the token still decodes but is refused as
  revoked.
\<close>

theorem allow_record_ttl_ignores_setting:
  "fst (authenticate_user settings30 1000 ''alice@example.org'' ''correct horse'' world0) =
      Inr (alice1, create_access_token settings30 (token_data alice) None 1000, rt30)
   \<and> map_of (unverified_claims rt30) ''exp'' = Some (JInt (1000 + 30 * 86400))
   \<and> cache (snd (authenticate_user settings30 1000 ''alice@example.org'' ''correct horse'' world0)) =
       [Some \<lparr>ekey = refresh_key (lit (uid alice)) rt30, evalue = lit ''1'',
              expires_at = 1000 + 7 * 86400\<rparr>]
   \<and> decode_token settings30 rt30 ''refresh'' (1000 + 7 * 86400) = Inr (Some (unverified_claims rt30))
   \<and> fst (refresh_access_token settings30 (1000 + 7 * 86400) rt30
           (snd (authenticate_user settings30 1000 ''alice@example.org'' ''correct horse'' world0))) =
       Inl (HTTPException 401 ''Refresh token has been revoked'')"
proof -
  have sel: "select_by_email (users world0) ''alice@example.org'' = Inr (Some alice)"
    by (simp add: world0_def select_by_email_def alice_def)
  have pw: "password_hash alice = Some (hash_password ''correct horse'')" "is_active alice"
    "hash_password ''correct horse'' \<noteq> []"
    "verify_password ''correct horse'' (hash_password ''correct horse'')"
    by (simp_all add: alice_def hash_password_def verify_password_def)
  note login = authenticate_user_success [OF sel pw(1) pw(3) pw(4) pw(2), of settings30 1000]
  have cache: "cache (snd (authenticate_user settings30 1000 ''alice@example.org'' ''correct horse''
                  world0)) =
       [Some \<lparr>ekey = refresh_key (lit (uid alice)) rt30, evalue = lit ''1'',
              expires_at = 1000 + 7 * 86400\<rparr>]"
  proof -
    have "cache (snd (authenticate_user settings30 1000 ''alice@example.org'' ''correct horse''
                  world0)) = store_refresh_token (lit (uid alice)) rt30 1000 (cache world0)"
      by (simp add: login rt30_def)
    also have "\<dots> = [Some \<lparr>ekey = refresh_key (lit (uid alice)) rt30, evalue = lit ''1'',
              expires_at = 1000 + 7 * 86400\<rparr>]"
      by (simp add: world0_def store_refresh_token_def redis_setex_def)
    finally show ?thesis .
  qed
  have exp: "map_of (unverified_claims rt30) ''exp'' = Some (JInt (1000 + 30 * 86400))"
    by (simp add: rt30_def create_refresh_token_def jwt_encode_def unverified_claims_def
        dict_update_token_data settings30_def token_data_def)
  have "(1000::int) + 7 * 86400 \<le> 1000 + 86400 * REFRESH_TOKEN_EXPIRE_DAYS settings30"
    by (simp add: settings30_def)
  from decode_fresh_refresh [OF this, of alice]
  have dec: "decode_token settings30 rt30 ''refresh'' (1000 + 7 * 86400) =
      Inr (Some (unverified_claims rt30))"
    using decode_token_claims [of settings30 rt30 "''refresh''" "1000 + 7 * 86400"]
    by (simp add: rt30_def)
  have sub: "map_of (unverified_claims rt30) ''sub'' = Some (JStr (uid alice))"
    by (simp add: rt30_def create_refresh_token_def jwt_encode_def unverified_claims_def
        dict_update_token_data token_data_def)
  have n: "uid alice \<noteq> []" by (simp add: alice_def)
  have gone: "\<not> check_refresh_token (lit (uid alice)) rt30 (1000 + 7 * 86400)
      (cache (snd (authenticate_user settings30 1000 ''alice@example.org'' ''correct horse'' world0)))"
    by (simp add: cache check_refresh_token_iff holds_simps live_simps)
  from refresh_failure_leaves_state_aux [OF dec sub n gone]
  have "fst (refresh_access_token settings30 (1000 + 7 * 86400) rt30
           (snd (authenticate_user settings30 1000 ''alice@example.org'' ''correct horse'' world0))) =
       Inl (HTTPException 401 ''Refresh token has been revoked'')"
    by simp
  with login cache exp dec show ?thesis by (simp add: rt30_def alice1_def)
qed

end
